theory Spec2Isabelle
  imports Main "HOL-Library.Word" "HOL-Library.AList"
begin

unbundle bit_operations_syntax

section \<open>The schema\<close>

text \<open>
  The input of \<open>generate\<close> is a schema object of the schema parser: an ordered list of
  enum definitions and an ordered list of message definitions, and an optional package name.
  \<open>field.options.packed\<close> is a string when the option is written and absent otherwise.
  \<open>def.values\<close> of an enum is an object from value names to numbers; it is kept as an
  association list in insertion order, the order in which \<open>for (key in def.values)\<close> visits it.
\<close>

record field =
  f_name :: string
  f_type :: string
  f_tag :: int
  f_required :: bool
  f_repeated :: bool
  f_packed :: "string option"

record message_def =
  m_name :: string
  m_fields :: "field list"

record enum_def =
  e_name :: string
  e_values :: "(string \<times> int) list"

record schema =
  s_package :: "string option"
  s_enums :: "enum_def list"
  s_messages :: "message_def list"

text \<open>
  The ways a call ends without a result: the error \<open>generate\<close> throws, the errors of
  the language and of the library (\<open>TypeError\<close>, \<open>RangeError\<close>, a malformed varint), the
  two errors the generated code throws itself, a loop that outruns its bound
  (\<open>OutOfFuel\<close>), and \<open>NotModelled\<close> for a run that leaves the part of JavaScript
  that is modelled here.
\<close>

datatype error =
    SchemaError string
  | TypeError
  | RangeError
  | MalformedVarint
  | UnimplementedType nat
  | MissingRequired string
  | OutOfFuel
  | NotModelled

section \<open>JavaScript objects used as tables\<close>

text \<open>
  \<open>enums\<close>, \<open>packableTypes\<close> and every decoded \<open>message\<close> are plain objects (\<open>{}\<close>), so
  they inherit the members of \<open>Object.prototype\<close>. The operator \<open>key in object\<close> and the
  lookup \<open>object[key]\<close> see inherited members as well as own ones: \<open>"toString" in {}\<close>
  is \<open>true\<close>. The members of \<open>Object.prototype\<close> are the twelve names below. Each of
  them is an identifier (letters, digits and underscores), so a schema can use it as the
  name of a field, of a type or of an enum value.
\<close>

definition object_prototype_keys :: "string list" where
  "object_prototype_keys =
     [''constructor'', ''hasOwnProperty'', ''isPrototypeOf'', ''propertyIsEnumerable'',
      ''toLocaleString'', ''toString'', ''valueOf'', ''__proto__'', ''__defineGetter__'',
      ''__defineSetter__'', ''__lookupGetter__'', ''__lookupSetter__'']"

definition js_in :: "string \<Rightarrow> string list \<Rightarrow> bool" where
  "js_in key own \<longleftrightarrow> key \<in> set own \<or> key \<in> set object_prototype_keys"

section \<open>Generation: tables and checks\<close>

definition TYPE_VAR_INT :: nat where "TYPE_VAR_INT = 0"
definition TYPE_SIZE_8 :: nat where "TYPE_SIZE_8 = 1"
definition TYPE_SIZE_N :: nat where "TYPE_SIZE_N = 2"
definition TYPE_SIZE_4 :: nat where "TYPE_SIZE_4 = 5"

definition packable_scalars :: "string list" where
  "packable_scalars =
     [''bool'', ''double'', ''fixed32'', ''fixed64'', ''float'', ''int32'', ''int64'',
      ''sfixed32'', ''sfixed64'', ''sint32'', ''sint64'', ''uint32'', ''uint64'']"

text \<open>
  The own keys of \<open>enums\<close> and of \<open>packableTypes\<close> once the loop over \<open>schema.enums\<close> has
  run (\<open>enums[def.name] = true; packableTypes[def.name] = true\<close>).
\<close>

definition enums :: "schema \<Rightarrow> string list" where
  "enums sch = map e_name (s_enums sch)"

definition packableTypes :: "schema \<Rightarrow> string list" where
  "packableTypes sch = packable_scalars @ map e_name (s_enums sch)"

subsection \<open>Enum tables\<close>

text \<open>
  \<open>key.slice(0, prefix.length) === prefix\<close> and \<open>key.slice(prefix.length)\<close>.
\<close>

definition strip_prefix :: "string \<Rightarrow> string \<Rightarrow> string" where
  "strip_prefix prefix key =
     (if take (length prefix) key = prefix then drop (length prefix) key else key)"

text \<open>
  One round of the loop over \<open>def.values\<close>: \<open>encode[key] = value.value;
  decode[value.value] = key\<close>. Assigning to a key an object already has replaces the value
  and keeps the key's place, which is \<open>AList.update\<close>. Both tables start as \<open>{}\<close>, and
  the inherited \<open>__proto__\<close> of a plain object is an accessor whose setter ignores a
  number: \<open>encode["__proto__"] = value.value\<close> stores nothing. The keys of \<open>decode\<close> are
  numbers, so every assignment to it stores. The tables are printed with
  \<open>JSON.stringify\<close>, which prints the own properties.
\<close>

definition enum_step ::
  "string \<Rightarrow> string \<times> int \<Rightarrow> (string \<times> int) list \<times> (int \<times> string) list
     \<Rightarrow> (string \<times> int) list \<times> (int \<times> string) list" where
  "enum_step prefix kv tables =
     (let key = strip_prefix prefix (fst kv)
      in (if key = ''__proto__'' then fst tables else AList.update key (snd kv) (fst tables),
          AList.update (snd kv) key (snd tables)))"

definition enum_tables :: "enum_def \<Rightarrow> (string \<times> int) list \<times> (int \<times> string) list" where
  "enum_tables def = fold (enum_step (e_name def @ ''_'')) (e_values def) ([], [])"

definition encode_table :: "enum_def \<Rightarrow> (string \<times> int) list" where
  "encode_table def = fst (enum_tables def)"

definition decode_table :: "enum_def \<Rightarrow> (int \<times> string) list" where
  "decode_table def = snd (enum_tables def)"

subsection \<open>Validation of the packed option\<close>

definition bad_packed :: "schema \<Rightarrow> field \<Rightarrow> bool" where
  "bad_packed sch field \<longleftrightarrow>
     f_packed field = Some ''true'' \<and>
     (\<not> f_repeated field \<or> \<not> js_in (f_type field) (packableTypes sch))"

definition validate_packed :: "schema \<Rightarrow> error + unit" where
  "validate_packed sch =
     (case find (bad_packed sch) (concat (map m_fields (s_messages sch))) of
        Some field \<Rightarrow>
          Inl (SchemaError (f_name field @
            '': [packed = true] can only be specified for repeated primitive fields''))
      | None \<Rightarrow> Inr ())"

subsection \<open>The per-field decisions\<close>

datatype kind =
    K_bool | K_bytes | K_double | K_fixed32 | K_fixed64 | K_float | K_int32 | K_int64
  | K_sfixed32 | K_sfixed64 | K_sint32 | K_sint64 | K_uint32 | K_uint64 | K_string
  | K_enum | K_message

text \<open>
  Which branch of \<open>switch (field.type)\<close> is taken; the \<open>default\<close> branch tests
  \<open>field.type in enums\<close>. The same switch is written twice, for \<open>write\<close> and for \<open>read\<close>.
\<close>

definition kind_of :: "schema \<Rightarrow> string \<Rightarrow> kind" where
  "kind_of sch ty =
     (if ty = ''bool'' then K_bool
      else if ty = ''bytes'' then K_bytes
      else if ty = ''double'' then K_double
      else if ty = ''fixed32'' then K_fixed32
      else if ty = ''fixed64'' then K_fixed64
      else if ty = ''float'' then K_float
      else if ty = ''int32'' then K_int32
      else if ty = ''int64'' then K_int64
      else if ty = ''sfixed32'' then K_sfixed32
      else if ty = ''sfixed64'' then K_sfixed64
      else if ty = ''sint32'' then K_sint32
      else if ty = ''sint64'' then K_sint64
      else if ty = ''uint32'' then K_uint32
      else if ty = ''uint64'' then K_uint64
      else if ty = ''string'' then K_string
      else if js_in ty (enums sch) then K_enum
      else K_message)"

text \<open>The value the variable \<open>type\<close> gets in the encode switch.\<close>

fun kind_wire_type :: "kind \<Rightarrow> nat" where
  "kind_wire_type K_bool = TYPE_VAR_INT"
| "kind_wire_type K_bytes = TYPE_SIZE_N"
| "kind_wire_type K_double = TYPE_SIZE_8"
| "kind_wire_type K_fixed32 = TYPE_SIZE_4"
| "kind_wire_type K_fixed64 = TYPE_SIZE_8"
| "kind_wire_type K_float = TYPE_SIZE_4"
| "kind_wire_type K_int32 = TYPE_VAR_INT"
| "kind_wire_type K_int64 = TYPE_VAR_INT"
| "kind_wire_type K_sfixed32 = TYPE_SIZE_4"
| "kind_wire_type K_sfixed64 = TYPE_SIZE_8"
| "kind_wire_type K_sint32 = TYPE_VAR_INT"
| "kind_wire_type K_sint64 = TYPE_VAR_INT"
| "kind_wire_type K_uint32 = TYPE_VAR_INT"
| "kind_wire_type K_uint64 = TYPE_VAR_INT"
| "kind_wire_type K_string = TYPE_SIZE_N"
| "kind_wire_type K_enum = TYPE_VAR_INT"
| "kind_wire_type K_message = TYPE_SIZE_N"

definition wire_type :: "schema \<Rightarrow> string \<Rightarrow> nat" where
  "wire_type sch ty = kind_wire_type (kind_of sch ty)"

definition isPacked :: "schema \<Rightarrow> field \<Rightarrow> bool" where
  "isPacked sch field \<longleftrightarrow>
     f_repeated field \<and> f_packed field \<noteq> Some ''false'' \<and>
     js_in (f_type field) (packableTypes sch)"

text \<open>
  \<open>(field.tag << 3) | type\<close> is computed by \<open>generate\<close> on 32-bit integers and printed
  into the call \<open>buffer.writeVarint32(...)\<close>.
\<close>

definition tag_word :: "int \<Rightarrow> nat \<Rightarrow> 32 word" where
  "tag_word tag ty = push_bit 3 (word_of_int tag) OR word_of_nat ty"

section \<open>Run-time values\<close>

text \<open>
  A message value is an object from field names to values. Values are kept apart by the
  kind the declared type asks for: \<open>Number\<close> is an integral number, \<open>Float32\<close> and
  \<open>Double\<close> are numbers given by their IEEE 754 bit patterns (rounding and the comparison
  of NaN are outside the model), \<open>Long w u\<close> is a \<open>ByteBuffer.Long\<close> with the 64 bits \<open>w\<close>
  and the flag \<open>unsigned = u\<close>, \<open>Str\<close> is a string as its list of code points, \<open>Bytes\<close> a
  binary buffer. \<open>Builtin k\<close> is the member \<open>k\<close> that a plain object inherits from
  \<open>Object.prototype\<close>: a function, and for \<open>__proto__\<close> the prototype object itself.
  A string is held as its code points: a surrogate pair is the one code point it encodes,
  and a surrogate in the list is an unpaired one.
\<close>

type_synonym byte = "8 word"

datatype jsval =
    Undefined
  | Boolean bool
  | Number int
  | Float32 "32 word"
  | Double "64 word"
  | Long "64 word" bool
  | Str "nat list"
  | Bytes "byte list"
  | Array "jsval list"
  | Object "(string \<times> jsval) list"
  | Builtin string

type_synonym jsobject = "(string \<times> jsval) list"

text \<open>A schema name as a run-time string.\<close>

definition js_string :: "string \<Rightarrow> nat list" where
  "js_string s = map of_char s"

text \<open>\<open>object[key]\<close> on a plain object: own property, else inherited member, else undefined.\<close>

definition js_get :: "jsobject \<Rightarrow> string \<Rightarrow> jsval" where
  "js_get obj key =
     (case map_of obj key of
        Some v \<Rightarrow> v
      | None \<Rightarrow> if key \<in> set object_prototype_keys then Builtin key else Undefined)"

text \<open>The values that are not objects.\<close>

fun is_primitive :: "jsval \<Rightarrow> bool" where
  "is_primitive Undefined = True"
| "is_primitive (Boolean b) = True"
| "is_primitive (Number n) = True"
| "is_primitive (Float32 w) = True"
| "is_primitive (Double w) = True"
| "is_primitive (Str s) = True"
| "is_primitive _ = False"

text \<open>
  \<open>object[key] = v\<close> on a plain object: an own property is created or replaced. The
  inherited \<open>__proto__\<close> is an accessor: assigning a primitive to it stores nothing, and
  assigning an object makes that object the prototype, which changes what \<open>object\<close>
  inherits and is outside the model.
\<close>

definition js_set :: "jsobject \<Rightarrow> string \<Rightarrow> jsval \<Rightarrow> error + jsobject" where
  "js_set obj key v =
     (if key = ''__proto__'' \<and> map_of obj key = None
      then (if is_primitive v then Inr obj else Inl NotModelled)
      else Inr (AList.update key v obj))"

text \<open>
  Truthiness, as \<open>value ? 1 : 0\<close> and \<open>a || b\<close> test it. A float is falsy when it is a zero
  of either sign or a NaN.
\<close>

definition float32_falsy :: "32 word \<Rightarrow> bool" where
  "float32_falsy w \<longleftrightarrow> w AND 0x7FFFFFFF = 0 \<or> 0x7F800000 < w AND 0x7FFFFFFF"

definition double_falsy :: "64 word \<Rightarrow> bool" where
  "double_falsy w \<longleftrightarrow>
     w AND 0x7FFFFFFFFFFFFFFF = 0 \<or> 0x7FF0000000000000 < w AND 0x7FFFFFFFFFFFFFFF"

fun truthy :: "jsval \<Rightarrow> bool" where
  "truthy Undefined = False"
| "truthy (Boolean b) = b"
| "truthy (Number n) = (n \<noteq> 0)"
| "truthy (Float32 w) = (\<not> float32_falsy w)"
| "truthy (Double w) = (\<not> double_falsy w)"
| "truthy (Str s) = (s \<noteq> [])"
| "truthy _ = True"

section \<open>The byte buffer\<close>

text \<open>
  The generated code reads and writes through the ByteBuffer library, which is not part of
  the repository. Its primitives are modelled from the specification's description of the
  wire format (sections 4.2, 4.4 and 6): base-128 varints, zigzag, little-endian fixed-width
  numbers, UTF-8 strings and length-delimited framing. An argument of a kind the primitive
  does not take is reported as \<open>TypeError\<close>; the conversions JavaScript would try on it are
  not modelled.
\<close>

subsection \<open>Writing\<close>

text \<open>
  Modelled from the spec: the varint encoder of ByteBuffer (\<open>writeVarint32\<close>,
  \<open>writeVarint64\<close>). Base-128 groups, least significant first, the high bit set on all
  but the last byte.
\<close>

function varint :: "nat \<Rightarrow> byte list" where
  "varint n = (if n < 128 then [of_nat n] else of_nat (n mod 128 + 128) # varint (n div 128))"
  by pat_completeness auto
termination
  by (relation "measure id") auto

declare varint.simps [simp del]

text \<open>Modelled from the spec: \<open>writeVarint32(value)\<close> writes \<open>value >>> 0\<close>.\<close>

definition writeVarint32 :: "32 word \<Rightarrow> byte list" where
  "writeVarint32 w = varint (unat w)"

text \<open>Modelled from the spec: \<open>writeVarint64(value)\<close> writes the 64 bits of \<open>value\<close>.\<close>

definition writeVarint64 :: "64 word \<Rightarrow> byte list" where
  "writeVarint64 w = varint (unat w)"

text \<open>
  Modelled from the spec: zigzag, \<open>(n << 1) ^ (n >> (width - 1))\<close> with an arithmetic
  shift, and its inverse \<open>(u >>> 1) ^ -(u & 1)\<close>.
\<close>

definition zigZagEncode32 :: "32 word \<Rightarrow> 32 word" where
  "zigZagEncode32 n = push_bit 1 n XOR signed_drop_bit 31 n"

definition zigZagDecode32 :: "32 word \<Rightarrow> 32 word" where
  "zigZagDecode32 u = drop_bit 1 u XOR - (u AND 1)"

definition zigZagEncode64 :: "64 word \<Rightarrow> 64 word" where
  "zigZagEncode64 n = push_bit 1 n XOR signed_drop_bit 63 n"

definition zigZagDecode64 :: "64 word \<Rightarrow> 64 word" where
  "zigZagDecode64 u = drop_bit 1 u XOR - (u AND 1)"

text \<open>
  Modelled from the spec: fixed-width numbers are written least significant byte first
  (the buffers are created little-endian: \<open>new ByteBuffer(undefined, true)\<close>).
\<close>

fun le_bytes :: "nat \<Rightarrow> nat \<Rightarrow> byte list" where
  "le_bytes 0 n = []"
| "le_bytes (Suc k) n = of_nat (n mod 256) # le_bytes k (n div 256)"

fun le_nat :: "byte list \<Rightarrow> nat" where
  "le_nat [] = 0"
| "le_nat (b # bs) = unat b + 256 * le_nat bs"

text \<open>
  Modelled from the spec: UTF-8 (\<open>writeUTF8String\<close>). A code point takes one to four
  bytes; an unpaired surrogate (\<open>D800\<close> to \<open>DFFF\<close>) is written as the replacement
  character \<open>U+FFFD\<close>, the bytes \<open>EF BF BD\<close>. A number from \<open>0x110000\<close> on is no code
  point and occurs in no string.
\<close>

definition surrogate :: "nat \<Rightarrow> bool" where
  "surrogate c \<longleftrightarrow> 0xD800 \<le> c \<and> c < 0xE000"

definition utf8_char :: "nat \<Rightarrow> byte list option" where
  "utf8_char c =
     (if c < 0x80 then Some [of_nat c]
      else if c < 0x800 then Some [of_nat (0xC0 + c div 64), of_nat (0x80 + c mod 64)]
      else if surrogate c then Some [0xEF, 0xBF, 0xBD]
      else if c < 0x10000 then
        Some [of_nat (0xE0 + c div 4096), of_nat (0x80 + c div 64 mod 64),
              of_nat (0x80 + c mod 64)]
      else if c < 0x110000 then
        Some [of_nat (0xF0 + c div 262144), of_nat (0x80 + c div 4096 mod 64),
              of_nat (0x80 + c div 64 mod 64), of_nat (0x80 + c mod 64)]
      else None)"

fun utf8_encode :: "nat list \<Rightarrow> byte list option" where
  "utf8_encode [] = Some []"
| "utf8_encode (c # cs) =
     (case utf8_char c of
        None \<Rightarrow> None
      | Some bs \<Rightarrow> (case utf8_encode cs of None \<Rightarrow> None | Some rest \<Rightarrow> Some (bs @ rest)))"

subsection \<open>Reading\<close>

text \<open>
  The read cursor: the absolute \<open>offset\<close> and \<open>limit\<close> of the ByteBuffer and the bytes
  from \<open>offset\<close> on. \<open>limit\<close> is a plain property that \<open>pushTemporaryLength\<close> and the
  generated code assign to; \<open>buffer.remaining()\<close> is \<open>limit - offset\<close>.
\<close>

record buffer =
  offset :: int
  limit :: int
  ahead :: "byte list"

definition remaining :: "buffer \<Rightarrow> int" where
  "remaining b = limit b - offset b"

text \<open>
  Modelled from the spec: reading \<open>n\<close> bytes (\<open>readBytes\<close>, and every fixed-width read).
  A read stays inside the current bound of the input; otherwise it is an error.
\<close>

definition readBytes :: "int \<Rightarrow> buffer \<Rightarrow> error + (byte list \<times> buffer)" where
  "readBytes n b =
     (if 0 \<le> n \<and> offset b + n \<le> limit b \<and> nat n \<le> length (ahead b)
      then Inr (take (nat n) (ahead b),
                b\<lparr>offset := offset b + n, ahead := drop (nat n) (ahead b)\<rparr>)
      else Inl RangeError)"

text \<open>Modelled from the spec: \<open>readByte\<close>.\<close>

definition readByte :: "buffer \<Rightarrow> error + (byte \<times> buffer)" where
  "readByte b =
     (case ahead b of
        [] \<Rightarrow> Inl RangeError
      | x # rest \<Rightarrow>
          if offset b < limit b then Inr (x, b\<lparr>offset := offset b + 1, ahead := rest\<rparr>)
          else Inl RangeError)"

text \<open>Modelled from the spec: \<open>skip(n)\<close> moves the cursor over \<open>n\<close> bytes of the input.\<close>

definition skip :: "int \<Rightarrow> buffer \<Rightarrow> error + buffer" where
  "skip n b = (case readBytes n b of Inl e \<Rightarrow> Inl e | Inr (bs, b') \<Rightarrow> Inr b')"

text \<open>
  Modelled from the spec: the varint decoder (section 4.2): read bytes until the high bit
  is clear and reassemble; no terminating byte within 10 bytes is malformed input. The
  first argument counts the bytes that may still be read.
\<close>

fun read_varint :: "nat \<Rightarrow> buffer \<Rightarrow> error + (nat \<times> buffer)" where
  "read_varint 0 b = Inl MalformedVarint"
| "read_varint (Suc k) b =
     (case readByte b of
        Inl e \<Rightarrow> Inl e
      | Inr (x, b') \<Rightarrow>
          if x AND 0x80 = 0 then Inr (unat x, b')
          else (case read_varint k b' of
                  Inl e \<Rightarrow> Inl e
                | Inr (v, b'') \<Rightarrow> Inr (unat (x AND 0x7F) + 128 * v, b'')))"

text \<open>Modelled from the spec: \<open>readVarint32\<close> keeps the low 32 bits.\<close>

definition readVarint32 :: "buffer \<Rightarrow> error + (32 word \<times> buffer)" where
  "readVarint32 b =
     (case read_varint 10 b of Inl e \<Rightarrow> Inl e | Inr (v, b') \<Rightarrow> Inr (word_of_nat v, b'))"

text \<open>Modelled from the spec: \<open>readVarint64\<close> keeps the low 64 bits.\<close>

definition readVarint64 :: "buffer \<Rightarrow> error + (64 word \<times> buffer)" where
  "readVarint64 b =
     (case read_varint 10 b of Inl e \<Rightarrow> Inl e | Inr (v, b') \<Rightarrow> Inr (word_of_nat v, b'))"

text \<open>
  Modelled from the spec: UTF-8 decoding (\<open>readUTF8String(n, "b")\<close> reads \<open>n\<close> bytes and
  decodes them). A lead byte announces one to four bytes; continuation bytes are
  \<open>10xxxxxx\<close>. The result is \<open>None\<close> for bytes that are not the UTF-8 of a string: a
  stray or missing continuation byte, a code point in more bytes than it needs, a
  surrogate, a number that is no code point.
\<close>

definition utf8_cont :: "byte \<Rightarrow> bool" where
  "utf8_cont b \<longleftrightarrow> 0x80 \<le> unat b \<and> unat b < 0xC0"

fun utf8_decode :: "byte list \<Rightarrow> nat list option" where
  "utf8_decode [] = Some []"
| "utf8_decode (a # bs) =
     (if unat a < 0x80 then map_option ((#) (unat a)) (utf8_decode bs)
      else if unat a < 0xC2 then None
      else if unat a < 0xE0 then
        (case bs of
           b # r \<Rightarrow>
             if utf8_cont b
             then map_option ((#) ((unat a - 0xC0) * 64 + (unat b - 0x80))) (utf8_decode r)
             else None
         | _ \<Rightarrow> None)
      else if unat a < 0xF0 then
        (case bs of
           b # c # r \<Rightarrow>
             if utf8_cont b \<and> utf8_cont c
                \<and> 0x800 \<le> (unat a - 0xE0) * 4096 + (unat b - 0x80) * 64 + (unat c - 0x80)
                \<and> \<not> surrogate ((unat a - 0xE0) * 4096 + (unat b - 0x80) * 64 + (unat c - 0x80))
             then map_option
                    ((#) ((unat a - 0xE0) * 4096 + (unat b - 0x80) * 64 + (unat c - 0x80)))
                    (utf8_decode r)
             else None
         | _ \<Rightarrow> None)
      else if unat a < 0xF5 then
        (case bs of
           b # c # d # r \<Rightarrow>
             if utf8_cont b \<and> utf8_cont c \<and> utf8_cont d
                \<and> 0x10000 \<le> (unat a - 0xF0) * 262144 + (unat b - 0x80) * 4096
                          + (unat c - 0x80) * 64 + (unat d - 0x80)
                \<and> (unat a - 0xF0) * 262144 + (unat b - 0x80) * 4096
                          + (unat c - 0x80) * 64 + (unat d - 0x80) < 0x110000
             then map_option
                    ((#) ((unat a - 0xF0) * 262144 + (unat b - 0x80) * 4096
                          + (unat c - 0x80) * 64 + (unat d - 0x80)))
                    (utf8_decode r)
             else None
         | _ \<Rightarrow> None)
      else None)"

section \<open>The helpers every generated module starts with\<close>

text \<open>
  \<open>pushTemporaryLength\<close>: read a varint length, narrow the limit to \<open>offset + length\<close>
  and return the limit that was in force. \<open>readVarint32\<close> yields a signed 32-bit number.
\<close>

definition pushTemporaryLength :: "buffer \<Rightarrow> error + (int \<times> buffer)" where
  "pushTemporaryLength b =
     (case readVarint32 b of
        Inl e \<Rightarrow> Inl e
      | Inr (len, b') \<Rightarrow> Inr (limit b', b'\<lparr>limit := offset b' + sint len\<rparr>))"

text \<open>
  The loop \<open>while (buffer.readByte() & 0x80) {}\<close>. It ends: every round takes one byte
  of the input, and \<open>readByte\<close> fails once there is none.
\<close>

function skip_varint :: "buffer \<Rightarrow> error + buffer" where
  "skip_varint b =
     (case readByte b of
        Inl e \<Rightarrow> Inl e
      | Inr (x, b') \<Rightarrow> if x AND 0x80 \<noteq> 0 then skip_varint b' else Inr b')"
  by pat_completeness auto
termination
  by (relation "measure (\<lambda>b. length (ahead b))")
     (auto simp: readByte_def split: list.splits if_splits)

declare skip_varint.simps [simp del]

definition skipUnknownField :: "buffer \<Rightarrow> nat \<Rightarrow> error + buffer" where
  "skipUnknownField b ty =
     (if ty = TYPE_VAR_INT then skip_varint b
      else if ty = TYPE_SIZE_N then
        (case readVarint32 b of Inl e \<Rightarrow> Inl e | Inr (len, b') \<Rightarrow> skip (sint len) b')
      else if ty = TYPE_SIZE_4 then skip 4 b
      else if ty = TYPE_SIZE_8 then skip 8 b
      else Inl (UnimplementedType ty))"

section \<open>The generated encoders\<close>

text \<open>
  \<open>value | 0\<close>: the 32-bit integer of a number; \<open>undefined\<close> gives 0 and a boolean 0
  or 1. An inherited member is converted through its string, which is no number, and
  gives 0. What the operator makes of a fraction, a string or another object is outside
  the model (\<open>None\<close>).
\<close>

definition to_int32 :: "jsval \<Rightarrow> 32 word option" where
  "to_int32 v =
     (case v of
        Undefined \<Rightarrow> Some 0
      | Boolean b \<Rightarrow> Some (if b then 1 else 0)
      | Number n \<Rightarrow> Some (word_of_int n)
      | Builtin k \<Rightarrow> Some 0
      | _ \<Rightarrow> None)"

text \<open>
  \<open>coerceLong\<close>: a \<open>ByteBuffer.Long\<close> is returned as it is; a value of another kind is
  tested with \<open>"low" in value && "high" in value\<close>, which throws on a primitive, and an
  object with both keys becomes \<open>new ByteBuffer.Long(value.low, value.high,
  value.unsigned)\<close>, whose halves are taken \<open>| 0\<close> and whose flag is the truthiness of the
  third argument. An array, a buffer and a function have neither key.
\<close>

definition coerceLong :: "jsval \<Rightarrow> error + jsval" where
  "coerceLong v =
     (case v of
        Long w u \<Rightarrow> Inr v
      | Object obj \<Rightarrow>
          if map_of obj ''low'' \<noteq> None \<and> map_of obj ''high'' \<noteq> None then
            (case to_int32 (js_get obj ''low'') of
               None \<Rightarrow> Inl NotModelled
             | Some lo \<Rightarrow>
                (case to_int32 (js_get obj ''high'') of
                   None \<Rightarrow> Inl NotModelled
                 | Some hi \<Rightarrow>
                     Inr (Long (push_bit 32 (ucast hi) OR ucast lo)
                            (truthy (js_get obj ''unsigned'')))))
          else Inr v
      | Array vs \<Rightarrow> Inr v
      | Bytes bs \<Rightarrow> Inr v
      | Builtin k \<Rightarrow> Inr v
      | _ \<Rightarrow> Inl TypeError)"

text \<open>A write of 64 bits, \<open>buffer.write...(coerceLong(value))\<close>.\<close>

definition write_long :: "(64 word \<Rightarrow> byte list) \<Rightarrow> jsval \<Rightarrow> error + byte list" where
  "write_long put v =
     (case coerceLong v of
        Inl e \<Rightarrow> Inl e
      | Inr (Long w u) \<Rightarrow> Inr (put w)
      | Inr _ \<Rightarrow> Inl TypeError)"

text \<open>
  The expression \<open>write\<close> of the encode switch for the scalar types, applied to \<open>value\<close>;
  the result is what it appends to its target buffer.
\<close>

definition write_scalar :: "kind \<Rightarrow> jsval \<Rightarrow> error + byte list" where
  "write_scalar k v =
     (case k of
        K_bool \<Rightarrow> Inr [if truthy v then 1 else 0]
      | K_bytes \<Rightarrow>
          (case v of
             Bytes bs \<Rightarrow> Inr (writeVarint32 (word_of_nat (length bs)) @ bs)
           | _ \<Rightarrow> Inl TypeError)
      | K_double \<Rightarrow>
          (case v of Double w \<Rightarrow> Inr (le_bytes 8 (unat w)) | _ \<Rightarrow> Inl TypeError)
      | K_fixed32 \<Rightarrow>
          (case v of
             Number n \<Rightarrow> Inr (le_bytes 4 (unat (word_of_int n :: 32 word)))
           | _ \<Rightarrow> Inl TypeError)
      | K_fixed64 \<Rightarrow> write_long (\<lambda>w. le_bytes 8 (unat w)) v
      | K_float \<Rightarrow>
          (case v of Float32 w \<Rightarrow> Inr (le_bytes 4 (unat w)) | _ \<Rightarrow> Inl TypeError)
      | K_int32 \<Rightarrow>
          (case to_int32 v of
             Some w \<Rightarrow> Inr (writeVarint64 (word_of_int (sint w)))
           | None \<Rightarrow> Inl NotModelled)
      | K_int64 \<Rightarrow> write_long writeVarint64 v
      | K_sfixed32 \<Rightarrow>
          (case v of
             Number n \<Rightarrow> Inr (le_bytes 4 (unat (word_of_int n :: 32 word)))
           | _ \<Rightarrow> Inl TypeError)
      | K_sfixed64 \<Rightarrow> write_long (\<lambda>w. le_bytes 8 (unat w)) v
      | K_sint32 \<Rightarrow>
          (case v of
             Number n \<Rightarrow> Inr (writeVarint32 (zigZagEncode32 (word_of_int n)))
           | _ \<Rightarrow> Inl TypeError)
      | K_sint64 \<Rightarrow> write_long (\<lambda>w. writeVarint64 (zigZagEncode64 w)) v
      | K_uint32 \<Rightarrow>
          (case v of
             Number n \<Rightarrow> Inr (writeVarint32 (word_of_int n))
           | _ \<Rightarrow> Inl TypeError)
      | K_uint64 \<Rightarrow> write_long writeVarint64 v
      | K_string \<Rightarrow>
          (case v of
             Str s \<Rightarrow>
               (case utf8_encode s of
                  None \<Rightarrow> Inl RangeError
                | Some bs \<Rightarrow> Inr (writeVarint32 (word_of_nat (length bs)) @ bs))
           | _ \<Rightarrow> Inl TypeError)
      | _ \<Rightarrow> Inl TypeError)"

text \<open>
  What \<open>pkg["encode" + T]\<close> and \<open>pkg["decode" + T]\<close> find. The module assigns the enum
  tables first and the message functions after them, so for a name a later definition
  replaces an earlier one and a message replaces an enum. With the option \<open>es6\<close> nothing is
  assigned to \<open>pkg\<close> (the definitions are exported constants), and the expression
  \<open>pkg[...]\<close> fails.
\<close>

definition lookup_message :: "schema \<Rightarrow> string \<Rightarrow> message_def option" where
  "lookup_message sch ty = find (\<lambda>d. m_name d = ty) (rev (s_messages sch))"

definition lookup_enum :: "schema \<Rightarrow> string \<Rightarrow> enum_def option" where
  "lookup_enum sch ty = find (\<lambda>d. e_name d = ty) (rev (s_enums sch))"

text \<open>
  The property key that \<open>table[value]\<close> looks up: a string is its own key,
  \<open>undefined\<close> and the booleans are the keys of their names, an object without a
  \<open>toString\<close> of its own is the key \<open>[object Object]\<close>. The keys of the other values
  are outside the model (\<open>None\<close>).
\<close>

definition to_key :: "jsval \<Rightarrow> nat list option" where
  "to_key v =
     (case v of
        Str s \<Rightarrow> Some s
      | Undefined \<Rightarrow> Some (js_string ''undefined'')
      | Boolean b \<Rightarrow> Some (js_string (if b then ''true'' else ''false''))
      | Object obj \<Rightarrow>
          if map_of obj ''toString'' = None then Some (js_string ''[object Object]'') else None
      | _ \<Rightarrow> None)"

text \<open>
  \<open>buffer.writeVarint32(pkg["encode" + T][value])\<close>. A name the table does not hold gives
  \<open>undefined\<close> or an inherited member, which \<open>writeVarint32\<close> refuses. When a message
  has the name \<open>T\<close>, \<open>pkg["encode" + T]\<close> is its encoder, a function of one parameter:
  its property \<open>length\<close> is the number 1, and no other property of it is a number.
\<close>

definition write_enum :: "schema \<Rightarrow> bool \<Rightarrow> string \<Rightarrow> jsval \<Rightarrow> error + byte list" where
  "write_enum sch es6 ty v =
     (if es6 then Inl TypeError
      else case lookup_message sch ty of
        Some d \<Rightarrow>
         (case to_key v of
            None \<Rightarrow> Inl NotModelled
          | Some key \<Rightarrow>
              if key = js_string ''length'' then Inr (writeVarint32 1) else Inl TypeError)
      | None \<Rightarrow>
         (case lookup_enum sch ty of
            None \<Rightarrow> Inl TypeError
          | Some def \<Rightarrow>
             (case to_key v of
                None \<Rightarrow> Inl NotModelled
              | Some key \<Rightarrow>
                 (case map_of (map (\<lambda>kv. (js_string (fst kv), snd kv)) (encode_table def)) key of
                    Some n \<Rightarrow> Inr (writeVarint32 (word_of_int n))
                  | None \<Rightarrow> Inl TypeError))))"

text \<open>Running a list of steps: the first error ends it.\<close>

fun collect :: "(error + 'a) list \<Rightarrow> error + 'a list" where
  "collect [] = Inr []"
| "collect (Inl e # rs) = Inl e"
| "collect (Inr x # rs) = (case collect rs of Inl e \<Rightarrow> Inl e | Inr xs \<Rightarrow> Inr (x # xs))"

text \<open>
  The elements the loop \<open>for (var i = 0; i < values.length; i++)\<close> visits. An inherited
  function has the length of its parameter list, and its elements are undefined. A value
  without a \<open>length\<close> (a number, a boolean, a Long, the prototype object, an object
  with no such key) gives no round; the elements of a buffer are its bytes. Indexing a
  string, or an object that has a \<open>length\<close>, is outside the model.
\<close>

definition builtin_length :: "string \<Rightarrow> nat" where
  "builtin_length k =
     (if k \<in> {''__defineGetter__'', ''__defineSetter__''} then 2
      else if k \<in> {''constructor'', ''hasOwnProperty'', ''isPrototypeOf'',
                     ''propertyIsEnumerable'', ''__lookupGetter__'', ''__lookupSetter__''}
      then 1 else 0)"

fun elements :: "jsval \<Rightarrow> error + jsval list" where
  "elements (Array vs) = Inr vs"
| "elements (Builtin k) = Inr (replicate (builtin_length k) Undefined)"
| "elements (Bytes bs) = Inr (map (\<lambda>x. Number (uint x)) bs)"
| "elements (Object obj) = (if map_of obj ''length'' = None then Inr [] else Inl NotModelled)"
| "elements (Str s) = Inl NotModelled"
| "elements Undefined = Inl TypeError"
| "elements _ = Inr []"

text \<open>
  \<open>write_value\<close> is the pair \<open>before; write\<close> of the encode switch, \<open>encode_field\<close>
  the block emitted for one field, \<open>encode_body\<close> the body of the generated
  \<open>encodeM(message)\<close>. The argument \<open>enc\<close> is what a call \<open>pkg["encode" + T](value)\<close>
  of the encoder of an embedded message does. The body reads \<open>message[name]\<close> once for
  every field: with no field it reads nothing, on \<open>undefined\<close> the read throws, and what
  a value that is no plain object holds under a name is outside the model.
\<close>

definition write_value ::
  "(message_def \<Rightarrow> jsval \<Rightarrow> error + byte list) \<Rightarrow> schema \<Rightarrow> bool \<Rightarrow> string \<Rightarrow> jsval
     \<Rightarrow> error + byte list" where
  "write_value enc sch es6 ty v =
     (if kind_of sch ty = K_enum then write_enum sch es6 ty v
      else if kind_of sch ty = K_message then
        (if es6 then Inl TypeError
         else case lookup_message sch ty of
           None \<Rightarrow> Inl TypeError
         | Some d \<Rightarrow>
            (case enc d v of
               Inl e \<Rightarrow> Inl e
             | Inr nested \<Rightarrow> Inr (writeVarint32 (word_of_nat (length nested)) @ nested)))
      else write_scalar (kind_of sch ty) v)"

definition encode_field ::
  "(message_def \<Rightarrow> jsval \<Rightarrow> error + byte list) \<Rightarrow> schema \<Rightarrow> bool \<Rightarrow> field \<Rightarrow> jsobject
     \<Rightarrow> error + byte list" where
  "encode_field enc sch es6 field message =
     (if f_repeated field then
        (if js_get message (f_name field) = Undefined then Inr []
         else
           (case elements (js_get message (f_name field)) of
              Inl e \<Rightarrow> Inl e
            | Inr vs \<Rightarrow>
               (case collect (map (write_value enc sch es6 (f_type field)) vs) of
                  Inl e \<Rightarrow> Inl e
                | Inr chunks \<Rightarrow>
                    if isPacked sch field then
                      Inr (writeVarint32 (tag_word (f_tag field) TYPE_SIZE_N)
                           @ writeVarint32 (word_of_nat (length (concat chunks)))
                           @ concat chunks)
                    else
                      Inr (concat (map (\<lambda>c.
                             writeVarint32 (tag_word (f_tag field)
                               (wire_type sch (f_type field))) @ c) chunks)))))
      else
        (if js_get message (f_name field) = Undefined then Inr []
         else
           (case write_value enc sch es6 (f_type field) (js_get message (f_name field)) of
              Inl e \<Rightarrow> Inl e
            | Inr bs \<Rightarrow>
                Inr (writeVarint32 (tag_word (f_tag field) (wire_type sch (f_type field)))
                     @ bs))))"

definition encode_body ::
  "(message_def \<Rightarrow> jsval \<Rightarrow> error + byte list) \<Rightarrow> schema \<Rightarrow> bool \<Rightarrow> message_def \<Rightarrow> jsval
     \<Rightarrow> error + byte list" where
  "encode_body enc sch es6 def v =
     (if m_fields def = [] then Inr []
      else case v of
        Object message \<Rightarrow>
          (case collect (map (\<lambda>field. encode_field enc sch es6 field message) (m_fields def)) of
             Inl e \<Rightarrow> Inl e
           | Inr chunks \<Rightarrow> Inr (concat chunks))
      | Undefined \<Rightarrow> Inl TypeError
      | _ \<Rightarrow> Inl NotModelled)"

text \<open>
  The generated encoders call each other for embedded messages. The first argument bounds
  the nesting of these calls.
\<close>

primrec encode_message ::
  "nat \<Rightarrow> schema \<Rightarrow> bool \<Rightarrow> message_def \<Rightarrow> jsval \<Rightarrow> error + byte list" where
  "encode_message 0 sch es6 = encode_body (\<lambda>d v. Inl OutOfFuel) sch es6"
| "encode_message (Suc n) sch es6 = encode_body (encode_message n sch es6) sch es6"

text \<open>
  The exported \<open>encodeM\<close>: a value nests less deeply than its size.
\<close>

definition encodeMessage :: "schema \<Rightarrow> bool \<Rightarrow> message_def \<Rightarrow> jsval \<Rightarrow> error + byte list" where
  "encodeMessage sch es6 def v = encode_message (size v) sch es6 def v"

section \<open>The generated decoders\<close>

text \<open>
  The expression \<open>read\<close> of the decode switch for the scalar types. \<open>readVarint32\<close>
  gives a signed 32-bit number, \<open>>>> 0\<close> its unsigned reading; \<open>readVarint64\<close> gives a
  signed Long, \<open>toUnsigned\<close> sets its flag. A \<open>bool\<close> is read with \<open>readByte\<close>: one
  byte, whatever its high bit. What the library makes of string bytes that are not UTF-8
  is outside the model.
\<close>

definition read_fixed :: "nat \<Rightarrow> buffer \<Rightarrow> error + (nat \<times> buffer)" where
  "read_fixed k b =
     (case readBytes (int k) b of Inl e \<Rightarrow> Inl e | Inr (bs, b') \<Rightarrow> Inr (le_nat bs, b'))"

definition read_scalar :: "kind \<Rightarrow> buffer \<Rightarrow> error + (jsval \<times> buffer)" where
  "read_scalar k b =
     (case k of
        K_bool \<Rightarrow>
          (case readByte b of Inl e \<Rightarrow> Inl e | Inr (x, b') \<Rightarrow> Inr (Boolean (x \<noteq> 0), b'))
      | K_bytes \<Rightarrow>
          (case readVarint32 b of
             Inl e \<Rightarrow> Inl e
           | Inr (len, b') \<Rightarrow>
              (case readBytes (sint len) b' of
                 Inl e \<Rightarrow> Inl e
               | Inr (bs, b'') \<Rightarrow> Inr (Bytes bs, b'')))
      | K_double \<Rightarrow>
          (case read_fixed 8 b of
             Inl e \<Rightarrow> Inl e | Inr (v, b') \<Rightarrow> Inr (Double (word_of_nat v), b'))
      | K_fixed32 \<Rightarrow>
          (case read_fixed 4 b of
             Inl e \<Rightarrow> Inl e
           | Inr (v, b') \<Rightarrow> Inr (Number (uint (word_of_nat v :: 32 word)), b'))
      | K_fixed64 \<Rightarrow>
          (case read_fixed 8 b of
             Inl e \<Rightarrow> Inl e | Inr (v, b') \<Rightarrow> Inr (Long (word_of_nat v) True, b'))
      | K_float \<Rightarrow>
          (case read_fixed 4 b of
             Inl e \<Rightarrow> Inl e | Inr (v, b') \<Rightarrow> Inr (Float32 (word_of_nat v), b'))
      | K_int32 \<Rightarrow>
          (case readVarint32 b of
             Inl e \<Rightarrow> Inl e | Inr (w, b') \<Rightarrow> Inr (Number (sint w), b'))
      | K_int64 \<Rightarrow>
          (case readVarint64 b of
             Inl e \<Rightarrow> Inl e | Inr (w, b') \<Rightarrow> Inr (Long w False, b'))
      | K_sfixed32 \<Rightarrow>
          (case read_fixed 4 b of
             Inl e \<Rightarrow> Inl e
           | Inr (v, b') \<Rightarrow> Inr (Number (sint (word_of_nat v :: 32 word)), b'))
      | K_sfixed64 \<Rightarrow>
          (case read_fixed 8 b of
             Inl e \<Rightarrow> Inl e | Inr (v, b') \<Rightarrow> Inr (Long (word_of_nat v) False, b'))
      | K_sint32 \<Rightarrow>
          (case readVarint32 b of
             Inl e \<Rightarrow> Inl e | Inr (w, b') \<Rightarrow> Inr (Number (sint (zigZagDecode32 w)), b'))
      | K_sint64 \<Rightarrow>
          (case readVarint64 b of
             Inl e \<Rightarrow> Inl e | Inr (w, b') \<Rightarrow> Inr (Long (zigZagDecode64 w) False, b'))
      | K_uint32 \<Rightarrow>
          (case readVarint32 b of
             Inl e \<Rightarrow> Inl e | Inr (w, b') \<Rightarrow> Inr (Number (uint w), b'))
      | K_uint64 \<Rightarrow>
          (case readVarint64 b of
             Inl e \<Rightarrow> Inl e | Inr (w, b') \<Rightarrow> Inr (Long w True, b'))
      | K_string \<Rightarrow>
          (case readVarint32 b of
             Inl e \<Rightarrow> Inl e
           | Inr (len, b') \<Rightarrow>
              (case readBytes (sint len) b' of
                 Inl e \<Rightarrow> Inl e
               | Inr (bs, b'') \<Rightarrow>
                  (case utf8_decode bs of
                     None \<Rightarrow> Inl NotModelled
                   | Some s \<Rightarrow> Inr (Str s, b''))))
      | _ \<Rightarrow> Inl TypeError)"

text \<open>
  \<open>pkg["decode" + T][buffer.readVarint32()]\<close>. A number without an entry gives
  \<open>undefined\<close>, and so does indexing a message function by a number.
\<close>

definition read_enum :: "schema \<Rightarrow> bool \<Rightarrow> string \<Rightarrow> buffer \<Rightarrow> error + (jsval \<times> buffer)" where
  "read_enum sch es6 ty b =
     (if es6 then Inl TypeError
      else case readVarint32 b of
        Inl e \<Rightarrow> Inl e
      | Inr (w, b') \<Rightarrow>
         (case lookup_message sch ty of
            Some d \<Rightarrow> Inr (Undefined, b')
          | None \<Rightarrow>
             (case lookup_enum sch ty of
                None \<Rightarrow> Inl TypeError
              | Some def \<Rightarrow>
                 (case map_of (decode_table def) (sint w) of
                    Some name \<Rightarrow> Inr (Str (js_string name), b')
                  | None \<Rightarrow> Inr (Undefined, b')))))"

text \<open>
  The checks emitted after the loop, one for each required field in declaration order:
  \<open>if (message[name] === undefined) throw new Error("Missing required field: " + name)\<close>.
\<close>

definition missing_required :: "message_def \<Rightarrow> jsobject \<Rightarrow> string option" where
  "missing_required def message =
     map_option f_name
       (find (\<lambda>field. f_required field \<and> js_get message (f_name field) = Undefined)
          (m_fields def))"

text \<open>
  \<open>var values = message[name] || (message[name] = [])\<close>: the value stored under the
  name when it is truthy, else a new array, which the message then holds.
\<close>

definition values_of :: "jsobject \<Rightarrow> string \<Rightarrow> error + (jsval \<times> jsobject)" where
  "values_of message name =
     (if truthy (js_get message name) then Inr (js_get message name, message)
      else (case js_set message name (Array []) of
              Inl e \<Rightarrow> Inl e
            | Inr message' \<Rightarrow> Inr (Array [], message')))"

text \<open>
  \<open>values.push(v)\<close> once \<open>v\<close> has been read: only an array has a \<open>push\<close>.
\<close>

definition push :: "jsval \<Rightarrow> jsval \<Rightarrow> error + jsval" where
  "push vals v = (case vals of Array vs \<Rightarrow> Inr (Array (vs @ [v])) | _ \<Rightarrow> Inl TypeError)"

text \<open>
  The array that \<open>push\<close> extends is the one the message holds under the name, so the
  message shows the elements pushed. A value that the message only inherits is not
  changed.
\<close>

definition store_values :: "jsobject \<Rightarrow> string \<Rightarrow> jsval \<Rightarrow> jsobject" where
  "store_values message name vals =
     (if map_of message name = None then message else AList.update name vals message)"

text \<open>
  \<open>read_value\<close> is the expression \<open>read\<close> of the decode switch with the statements
  emitted before and after it for an embedded message (\<open>var limit =
  pushTemporaryLength(buffer)\<close> and \<open>buffer.limit = limit\<close>). The argument \<open>dec\<close> is what a
  call \<open>pkg["decode" + T](buffer)\<close> of the decoder of an embedded message does.
\<close>

definition read_value ::
  "(message_def \<Rightarrow> buffer \<Rightarrow> error + (jsval \<times> buffer)) \<Rightarrow> schema \<Rightarrow> bool \<Rightarrow> string \<Rightarrow> buffer
     \<Rightarrow> error + (jsval \<times> buffer)" where
  "read_value dec sch es6 ty b =
     (if kind_of sch ty = K_enum then read_enum sch es6 ty b
      else if kind_of sch ty = K_message then
        (case pushTemporaryLength b of
           Inl e \<Rightarrow> Inl e
         | Inr (lim, b1) \<Rightarrow>
            if es6 then Inl TypeError
            else
              (case lookup_message sch ty of
                 None \<Rightarrow> Inl TypeError
               | Some d \<Rightarrow>
                  (case dec d b1 of
                     Inl e \<Rightarrow> Inl e
                   | Inr (v, b2) \<Rightarrow> Inr (v, b2\<lparr>limit := lim\<rparr>))))
      else read_scalar (kind_of sch ty) b)"

text \<open>
  The loop over a packed payload, \<open>while (buffer.remaining() > 0) values.push(read)\<close>.
  The first argument bounds its rounds.
\<close>

primrec read_packed ::
  "nat \<Rightarrow> (buffer \<Rightarrow> error + (jsval \<times> buffer)) \<Rightarrow> buffer \<Rightarrow> jsval
     \<Rightarrow> error + (jsval \<times> buffer)" where
  "read_packed 0 rd b vals = (if remaining b > 0 then Inl OutOfFuel else Inr (vals, b))"
| "read_packed (Suc n) rd b vals =
     (if remaining b > 0 then
        (case rd b of
           Inl e \<Rightarrow> Inl e
         | Inr (v, b1) \<Rightarrow>
            (case push vals v of
               Inl e \<Rightarrow> Inl e
             | Inr vals' \<Rightarrow> read_packed n rd b1 vals'))
      else Inr (vals, b))"

text \<open>
  The case emitted for one field. Every round of the packed loop takes at least one byte,
  so the bytes ahead bound its rounds.
\<close>

definition read_field ::
  "(message_def \<Rightarrow> buffer \<Rightarrow> error + (jsval \<times> buffer)) \<Rightarrow> schema \<Rightarrow> bool \<Rightarrow> field \<Rightarrow> 32 word
     \<Rightarrow> buffer \<Rightarrow> jsobject \<Rightarrow> error + (jsobject \<times> buffer)" where
  "read_field dec sch es6 field tag b message =
     (if f_repeated field then
        (case values_of message (f_name field) of
           Inl e \<Rightarrow> Inl e
         | Inr (vals, message1) \<Rightarrow>
            if js_in (f_type field) (packableTypes sch) \<and> unat (tag AND 7) = TYPE_SIZE_N then
              (case pushTemporaryLength b of
                 Inl e \<Rightarrow> Inl e
               | Inr (outerLimit, b1) \<Rightarrow>
                  (case read_packed (Suc (length (ahead b1)))
                          (read_value dec sch es6 (f_type field)) b1 vals of
                     Inl e \<Rightarrow> Inl e
                   | Inr (vals', b2) \<Rightarrow>
                       Inr (store_values message1 (f_name field) vals',
                            b2\<lparr>limit := outerLimit\<rparr>)))
            else
              (case read_value dec sch es6 (f_type field) b of
                 Inl e \<Rightarrow> Inl e
               | Inr (v, b1) \<Rightarrow>
                  (case push vals v of
                     Inl e \<Rightarrow> Inl e
                   | Inr vals' \<Rightarrow> Inr (store_values message1 (f_name field) vals', b1))))
      else
        (case read_value dec sch es6 (f_type field) b of
           Inl e \<Rightarrow> Inl e
         | Inr (v, b1) \<Rightarrow>
            (case js_set message (f_name field) v of
               Inl e \<Rightarrow> Inl e
             | Inr message' \<Rightarrow> Inr (message', b1))))"

text \<open>
  The loop \<open>end_of_message: while (buffer.remaining() > 0)\<close> with its switch on
  \<open>tag >>> 3\<close>: the first case is \<open>case 0: break end_of_message\<close>, the next cases are the
  fields in declaration order, the default case skips. The first argument bounds its
  rounds.
\<close>

primrec decode_loop ::
  "nat \<Rightarrow> (message_def \<Rightarrow> buffer \<Rightarrow> error + (jsval \<times> buffer)) \<Rightarrow> schema \<Rightarrow> bool
     \<Rightarrow> message_def \<Rightarrow> buffer \<Rightarrow> jsobject \<Rightarrow> error + (jsobject \<times> buffer)" where
  "decode_loop 0 dec sch es6 def b message =
     (if remaining b > 0 then Inl OutOfFuel else Inr (message, b))"
| "decode_loop (Suc n) dec sch es6 def b message =
     (if remaining b > 0 then
        (case readVarint32 b of
           Inl e \<Rightarrow> Inl e
         | Inr (tag, b1) \<Rightarrow>
            if drop_bit 3 tag = 0 then Inr (message, b1)
            else
              (case find (\<lambda>field. f_tag field = uint (drop_bit 3 tag)) (m_fields def) of
                 Some field \<Rightarrow>
                   (case read_field dec sch es6 field tag b1 message of
                      Inl e \<Rightarrow> Inl e
                    | Inr (message', b2) \<Rightarrow> decode_loop n dec sch es6 def b2 message')
               | None \<Rightarrow>
                   (case skipUnknownField b1 (unat (tag AND 7)) of
                      Inl e \<Rightarrow> Inl e
                    | Inr b2 \<Rightarrow> decode_loop n dec sch es6 def b2 message)))
      else Inr (message, b))"

text \<open>
  The body of the generated \<open>decodeM(buffer)\<close>: the loop from an empty message, then the
  checks of the required fields. Every round of the loop takes at least the byte of a tag,
  so the bytes ahead bound its rounds.
\<close>

definition decode_body ::
  "(message_def \<Rightarrow> buffer \<Rightarrow> error + (jsval \<times> buffer)) \<Rightarrow> schema \<Rightarrow> bool \<Rightarrow> message_def
     \<Rightarrow> buffer \<Rightarrow> error + (jsval \<times> buffer)" where
  "decode_body dec sch es6 def b =
     (case decode_loop (Suc (length (ahead b))) dec sch es6 def b [] of
        Inl e \<Rightarrow> Inl e
      | Inr (message, b') \<Rightarrow>
         (case missing_required def message of
            Some name \<Rightarrow> Inl (MissingRequired name)
          | None \<Rightarrow> Inr (Object message, b')))"

text \<open>
  The generated decoders call each other for embedded messages. The first argument bounds
  the nesting of these calls.
\<close>

primrec decode_message ::
  "nat \<Rightarrow> schema \<Rightarrow> bool \<Rightarrow> message_def \<Rightarrow> buffer \<Rightarrow> error + (jsval \<times> buffer)" where
  "decode_message 0 sch es6 = decode_body (\<lambda>d b. Inl OutOfFuel) sch es6"
| "decode_message (Suc n) sch es6 = decode_body (decode_message n sch es6) sch es6"

text \<open>
  The exported \<open>decodeM\<close> applied to bytes: they are wrapped in a little-endian
  ByteBuffer, whose offset is 0 and whose limit is their number. An embedded message
  takes bytes of the input, so the input bounds the nesting.
\<close>

definition decodeMessage :: "schema \<Rightarrow> bool \<Rightarrow> message_def \<Rightarrow> byte list \<Rightarrow> error + jsval" where
  "decodeMessage sch es6 def bytes =
     (case decode_message (length bytes) sch es6 def
             \<lparr>offset = 0, limit = int (length bytes), ahead = bytes\<rparr> of
        Inl e \<Rightarrow> Inl e
      | Inr (v, b) \<Rightarrow> Inr v)"

section \<open>The generator\<close>

text \<open>
  \<open>generate\<close> builds the enum tables, then validates the packed options, then emits the
  codecs of the messages; it returns the module text only at its end. The result here is
  what the module exports: the two tables of every enum under \<open>encode\<close>/\<open>decode\<close> plus
  the enum's name, and for every message the functions \<open>encodeMessage\<close> and
  \<open>decodeMessage\<close> above.
\<close>

record module =
  enum_exports :: "(string \<times> (string \<times> int) list \<times> (int \<times> string) list) list"
  message_exports :: "string list"

definition generate :: "schema \<Rightarrow> bool \<Rightarrow> error + module" where
  "generate sch es6 =
     (case validate_packed sch of
        Inl e \<Rightarrow> Inl e
      | Inr u \<Rightarrow>
          Inr \<lparr>enum_exports = map (\<lambda>d. (e_name d, encode_table d, decode_table d)) (s_enums sch),
               message_exports = map m_name (s_messages sch)\<rparr>)"

section \<open>The values of the scalar types\<close>

text \<open>
  The values a field of a scalar type holds, for which encoding and decoding are compared:
  a boolean for \<open>bool\<close>; an integral number in the signed or unsigned 32-bit range for the
  32-bit integer types; a Long with the matching flag for the 64-bit integer types; a
  number of single or double precision for \<open>float\<close> and \<open>double\<close>; a string without
  unpaired surrogates, and a buffer, whose encoded length fits the signed 32-bit length
  prefix.
\<close>

definition scalar_types :: "string list" where
  "scalar_types =
     [''bool'', ''bytes'', ''double'', ''fixed32'', ''fixed64'', ''float'', ''int32'', ''int64'',
      ''sfixed32'', ''sfixed64'', ''sint32'', ''sint64'', ''string'', ''uint32'', ''uint64'']"

definition valid_for :: "kind \<Rightarrow> jsval \<Rightarrow> bool" where
  "valid_for k v =
     (case k of
        K_bool \<Rightarrow> (case v of Boolean b \<Rightarrow> True | _ \<Rightarrow> False)
      | K_bytes \<Rightarrow> (case v of Bytes bs \<Rightarrow> length bs < 2 ^ 31 | _ \<Rightarrow> False)
      | K_double \<Rightarrow> (case v of Double w \<Rightarrow> True | _ \<Rightarrow> False)
      | K_fixed32 \<Rightarrow> (case v of Number n \<Rightarrow> 0 \<le> n \<and> n < 2 ^ 32 | _ \<Rightarrow> False)
      | K_fixed64 \<Rightarrow> (case v of Long w u \<Rightarrow> u | _ \<Rightarrow> False)
      | K_float \<Rightarrow> (case v of Float32 w \<Rightarrow> True | _ \<Rightarrow> False)
      | K_int32 \<Rightarrow> (case v of Number n \<Rightarrow> - (2 ^ 31) \<le> n \<and> n < 2 ^ 31 | _ \<Rightarrow> False)
      | K_int64 \<Rightarrow> (case v of Long w u \<Rightarrow> \<not> u | _ \<Rightarrow> False)
      | K_sfixed32 \<Rightarrow> (case v of Number n \<Rightarrow> - (2 ^ 31) \<le> n \<and> n < 2 ^ 31 | _ \<Rightarrow> False)
      | K_sfixed64 \<Rightarrow> (case v of Long w u \<Rightarrow> \<not> u | _ \<Rightarrow> False)
      | K_sint32 \<Rightarrow> (case v of Number n \<Rightarrow> - (2 ^ 31) \<le> n \<and> n < 2 ^ 31 | _ \<Rightarrow> False)
      | K_sint64 \<Rightarrow> (case v of Long w u \<Rightarrow> \<not> u | _ \<Rightarrow> False)
      | K_uint32 \<Rightarrow> (case v of Number n \<Rightarrow> 0 \<le> n \<and> n < 2 ^ 32 | _ \<Rightarrow> False)
      | K_uint64 \<Rightarrow> (case v of Long w u \<Rightarrow> u | _ \<Rightarrow> False)
      | K_string \<Rightarrow>
          (case v of
             Str s \<Rightarrow>
               list_all (\<lambda>c. \<not> surrogate c) s \<and>
               (case utf8_encode s of Some bs \<Rightarrow> length bs < 2 ^ 31 | None \<Rightarrow> False)
           | _ \<Rightarrow> False)
      | _ \<Rightarrow> False)"

text \<open>
  Writing a value and reading it back at any place of an input: the write succeeds with
  at least one byte, and the read of the same type returns the value and leaves the
  cursor behind these bytes.
\<close>

definition reads_back :: "kind \<Rightarrow> jsval \<Rightarrow> bool" where
  "reads_back k v \<longleftrightarrow>
     (\<exists>bs. write_scalar k v = Inr bs \<and> bs \<noteq> [] \<and>
        (\<forall>b rest. offset b + int (length bs) \<le> limit b \<longrightarrow>
           read_scalar k (b\<lparr>ahead := bs @ rest\<rparr>) =
             Inr (v, b\<lparr>offset := offset b + int (length bs), ahead := rest\<rparr>)))"

section \<open>Schemas with inherited names\<close>

text \<open>
  The schemas below declare a message named \<open>toString\<close>, a field named \<open>toString\<close>
  or \<open>valueOf\<close>, or an enum value named \<open>__proto__\<close>. These are identifiers, and a
  schema may use them.
\<close>

definition inherited_type_schema :: "bool \<Rightarrow> string option \<Rightarrow> schema" where
  "inherited_type_schema repeated packed =
     \<lparr>s_package = None, s_enums = [],
      s_messages =
        [\<lparr>m_name = ''toString'', m_fields = []\<rparr>,
         \<lparr>m_name = ''M'',
          m_fields = [\<lparr>f_name = ''t'', f_type = ''toString'', f_tag = 1, f_required = False,
                       f_repeated = repeated, f_packed = packed\<rparr>]\<rparr>]\<rparr>"

definition inherited_name_schema :: "string \<Rightarrow> schema" where
  "inherited_name_schema name =
     \<lparr>s_package = None, s_enums = [],
      s_messages =
        [\<lparr>m_name = ''M'',
          m_fields = [\<lparr>f_name = name, f_type = ''int32'', f_tag = 1, f_required = False,
                       f_repeated = True, f_packed = None\<rparr>]\<rparr>]\<rparr>"

text \<open>A message with one field, for inputs that carry other field numbers.\<close>

definition skip_schema :: schema where
  "skip_schema = \<lparr>s_package = None, s_enums = [], s_messages = []\<rparr>"

definition skip_def_M :: message_def where
  "skip_def_M =
     \<lparr>m_name = ''M'',
      m_fields = [\<lparr>f_name = ''id'', f_type = ''int32'', f_tag = 1, f_required = False,
                   f_repeated = False, f_packed = None\<rparr>]\<rparr>"



text \<open>
  A message with an optional and a required number, a message whose field is named
  \<open>__proto__\<close>, and the fields that stand beside the field under test in a larger message.
\<close>

definition pair_def_M :: message_def where
  "pair_def_M =
     \<lparr>m_name = ''M'',
      m_fields = [\<lparr>f_name = ''f'', f_type = ''int32'', f_tag = 1, f_required = False,
                   f_repeated = False, f_packed = None\<rparr>,
                  \<lparr>f_name = ''g'', f_type = ''int32'', f_tag = 2, f_required = True,
                   f_repeated = False, f_packed = None\<rparr>]\<rparr>"

definition proto_field_def_M :: message_def where
  "proto_field_def_M =
     \<lparr>m_name = ''M'',
      m_fields = [\<lparr>f_name = ''__proto__'', f_type = ''int32'', f_tag = 1, f_required = False,
                   f_repeated = False, f_packed = None\<rparr>]\<rparr>"

definition field_g :: field where
  "field_g = \<lparr>f_name = ''g'', f_type = ''string'', f_tag = 7, f_required = False,
               f_repeated = False, f_packed = None\<rparr>"

definition field_h :: field where
  "field_h = \<lparr>f_name = ''h'', f_type = ''int32'', f_tag = 9, f_required = False,
               f_repeated = True, f_packed = None\<rparr>"

text \<open>An enum with a value of one byte and a value of two bytes.\<close>

definition level_enum :: enum_def where
  "level_enum = \<lparr>e_name = ''Level'', e_values = [(''Level_LOW'', 1), (''Level_HIGH'', 300)]\<rparr>"

definition level_schema :: schema where
  "level_schema = \<lparr>s_package = None, s_enums = [level_enum], s_messages = []\<rparr>"

text \<open>An enum with a value whose stripped name is \<open>__proto__\<close>, and a message that uses it.\<close>

definition proto_enum :: enum_def where
  "proto_enum = \<lparr>e_name = ''E'', e_values = [(''E_A'', 1), (''E___proto__'', 2)]\<rparr>"

definition proto_schema :: schema where
  "proto_schema = \<lparr>s_package = None, s_enums = [proto_enum], s_messages = []\<rparr>"

definition proto_def_M :: message_def where
  "proto_def_M =
     \<lparr>m_name = ''M'',
      m_fields = [\<lparr>f_name = ''e'', f_type = ''E'', f_tag = 1, f_required = False,
                   f_repeated = False, f_packed = None\<rparr>]\<rparr>"

section \<open>Bytes and varints\<close>

lemma and_7F_take_bit: "(x::byte) AND 0x7F = take_bit 7 x"
  by (simp add: take_bit_eq_mask mask_eq_exp_minus_1)

lemma byte_low7: "unat ((x :: byte) AND 0x7F) = unat x mod 128"
  by (simp add: and_7F_take_bit take_bit_eq_mod unat_mod)

lemma unat_byte_less: "unat (x::byte) < 256"
  using unsigned_less[of x] by simp

lemma byte_bit7: "bit (x::byte) 7 = (128 \<le> unat x)"
proof -
  have "bit (unat x) 7 = odd (unat x div 128)" by (simp add: bit_iff_odd)
  moreover have "unat x div 128 < 2" using unat_byte_less[of x] by simp
  moreover have "bit x 7 = bit (unat x) 7" by (simp add: bit_unsigned_iff)
  ultimately show ?thesis
    by (cases "128 \<le> unat x") (auto simp: div_eq_0_iff elim: oddE)
qed

lemma byte_high_clear: "(x :: byte) AND 0x80 = 0 \<longleftrightarrow> unat x < 128"
  using and_exp_eq_0_iff_not_bit[of x 7] byte_bit7[of x] by auto

lemma unat_byte_of_nat: "n < 256 \<Longrightarrow> unat (of_nat n :: byte) = n"
  by (simp add: unat_of_nat)

lemma varint_small: "n < 128 \<Longrightarrow> varint n = [of_nat n]"
  by (subst varint.simps) simp

lemma varint_big: "128 \<le> n \<Longrightarrow> varint n = of_nat (n mod 128 + 128) # varint (n div 128)"
  by (subst varint.simps) simp

lemma varint_nonempty: "varint n \<noteq> []"
  by (subst varint.simps) simp

lemma length_varint_le: "n < 128 ^ k \<Longrightarrow> 0 < k \<Longrightarrow> length (varint n) \<le> k"
proof (induction k arbitrary: n)
  case 0
  then show ?case by simp
next
  case (Suc k)
  show ?case
  proof (cases "n < 128")
    case True
    then show ?thesis by (simp add: varint_small)
  next
    case False
    then have big: "128 \<le> n" by simp
    have k: "0 < k" using Suc.prems big by (intro gr0I) auto
    from Suc.prems have "n div 128 < 128 ^ k"
      by (simp add: less_mult_imp_div_less mult.commute)
    from Suc.IH[OF this k] show ?thesis by (simp add: varint_big[OF big])
  qed
qed

lemma read_varint_varint:
  "n < 128 ^ k \<Longrightarrow> 0 < k \<Longrightarrow> ahead b = varint n @ rest
   \<Longrightarrow> offset b + int (length (varint n)) \<le> limit b
   \<Longrightarrow> read_varint k b =
         Inr (n, b\<lparr>offset := offset b + int (length (varint n)), ahead := rest\<rparr>)"
proof (induction k arbitrary: n b)
  case 0
  then show ?case by simp
next
  case (Suc k)
  show ?case
  proof (cases "n < 128")
    case True
    then have v: "varint n = [of_nat n]" by (simp add: varint_small)
    have u: "unat (of_nat n :: byte) = n" using True by (simp add: unat_byte_of_nat)
    show ?thesis using Suc.prems True
      by (simp add: v readByte_def byte_high_clear u)
  next
    case False
    then have big: "128 \<le> n" by simp
    define x :: byte where "x = of_nat (n mod 128 + 128)"
    have v: "varint n = x # varint (n div 128)" unfolding x_def by (rule varint_big[OF big])
    have u: "unat x = n mod 128 + 128" unfolding x_def by (rule unat_byte_of_nat) simp
    have k: "0 < k" using Suc.prems big by (intro gr0I) auto
    from Suc.prems have d: "n div 128 < 128 ^ k"
      by (simp add: less_mult_imp_div_less mult.commute)
    let ?b' = "b\<lparr>offset := offset b + 1, ahead := varint (n div 128) @ rest\<rparr>"
    have rb: "readByte b = Inr (x, ?b')"
      using Suc.prems by (simp add: v readByte_def)
    have ih: "read_varint k ?b' =
      Inr (n div 128, ?b'\<lparr>offset := offset ?b' + int (length (varint (n div 128))), ahead := rest\<rparr>)"
      using Suc.prems by (intro Suc.IH[OF d k]) (simp_all add: v)
    show ?thesis
      by (simp add: rb ih byte_high_clear u byte_low7 v)
  qed
qed

lemma read_varint_malformed:
  "k \<le> length (ahead b) \<Longrightarrow> \<forall>x \<in> set (take k (ahead b)). x AND 0x80 \<noteq> 0
   \<Longrightarrow> offset b + int k \<le> limit b \<Longrightarrow> read_varint k b = Inl MalformedVarint"
proof (induction k arbitrary: b)
  case 0
  then show ?case by simp
next
  case (Suc k)
  then obtain x rest where a: "ahead b = x # rest" by (cases "ahead b") auto
  let ?b' = "b\<lparr>offset := offset b + 1, ahead := rest\<rparr>"
  have rb: "readByte b = Inr (x, ?b')" using Suc.prems a by (simp add: readByte_def)
  have hx: "x AND 0x80 \<noteq> 0" using Suc.prems a by simp
  have "read_varint k ?b' = Inl MalformedVarint"
    using Suc.prems a by (intro Suc.IH) simp_all
  then show ?case using rb hx by simp
qed

lemma skip_varint_bytes:
  "ahead b = cs @ t # rest \<Longrightarrow> \<forall>c \<in> set cs. c AND 0x80 \<noteq> 0 \<Longrightarrow> t AND 0x80 = 0
   \<Longrightarrow> offset b + int (length cs) + 1 \<le> limit b
   \<Longrightarrow> skip_varint b = Inr (b\<lparr>offset := offset b + int (length cs) + 1, ahead := rest\<rparr>)"
proof (induction cs arbitrary: b)
  case Nil
  then show ?case by (subst skip_varint.simps) (simp add: readByte_def)
next
  case (Cons c cs)
  let ?b' = "b\<lparr>offset := offset b + 1, ahead := cs @ t # rest\<rparr>"
  have rb: "readByte b = Inr (c, ?b')" using Cons.prems by (simp add: readByte_def)
  have "skip_varint ?b' = Inr (?b'\<lparr>offset := offset ?b' + int (length cs) + 1, ahead := rest\<rparr>)"
    using Cons.prems by (intro Cons.IH) simp_all
  then show ?case using rb Cons.prems by (subst skip_varint.simps) (simp add: add.commute add.left_commute)
qed

lemma readBytes_append:
  "ahead b = bs @ rest \<Longrightarrow> offset b + int (length bs) \<le> limit b
   \<Longrightarrow> readBytes (int (length bs)) b =
         Inr (bs, b\<lparr>offset := offset b + int (length bs), ahead := rest\<rparr>)"
  by (simp add: readBytes_def)

lemma skip_append:
  "ahead b = bs @ rest \<Longrightarrow> offset b + int (length bs) \<le> limit b
   \<Longrightarrow> skip (int (length bs)) b = Inr (b\<lparr>offset := offset b + int (length bs), ahead := rest\<rparr>)"
  by (simp add: skip_def readBytes_append)

lemma length_varint_10: "n < 2 ^ 64 \<Longrightarrow> length (varint n) \<le> 10"
proof -
  assume "n < 2 ^ 64"
  then have "n < 128 ^ 10" by (simp add: order_less_trans)
  then show ?thesis by (rule length_varint_le) simp
qed

lemma length_varint_5: "n < 2 ^ 32 \<Longrightarrow> length (varint n) \<le> 5"
proof -
  assume "n < 2 ^ 32"
  then have "n < 128 ^ 5" by (simp add: order_less_trans)
  then show ?thesis by (rule length_varint_le) simp
qed

lemma read_varint_10:
  assumes "n < 2 ^ 64" "ahead b = varint n @ rest" "offset b + int (length (varint n)) \<le> limit b"
  shows "read_varint 10 b = Inr (n, b\<lparr>offset := offset b + int (length (varint n)), ahead := rest\<rparr>)"
proof -
  have "n < 128 ^ 10" using assms(1) by (simp add: order_less_trans)
  then show ?thesis using assms by (intro read_varint_varint) simp_all
qed

section \<open>Enum tables\<close>

lemma find_append:
  "find P (xs @ ys) = (case find P xs of Some x \<Rightarrow> Some x | None \<Rightarrow> find P ys)"
  by (induction xs) auto

lemma fst_enum_step:
  "fst (enum_step p kv tables) =
     (if strip_prefix p (fst kv) = ''__proto__'' then fst tables
      else AList.update (strip_prefix p (fst kv)) (snd kv) (fst tables))"
  by (simp add: enum_step_def Let_def)

lemma snd_enum_step:
  "snd (enum_step p kv tables) = AList.update (snd kv) (strip_prefix p (fst kv)) (snd tables)"
  by (simp add: enum_step_def Let_def)

lemma fold_enum_step_encode:
  "k \<noteq> ''__proto__'' \<Longrightarrow>
   map_of (fst (fold (enum_step p) xs tables)) k =
     (case find (\<lambda>kv. strip_prefix p (fst kv) = k) (rev xs) of
        Some kv \<Rightarrow> Some (snd kv)
      | None \<Rightarrow> map_of (fst tables) k)"
proof (induction xs arbitrary: tables)
  case Nil
  then show ?case by simp
next
  case (Cons x xs)
  show ?case
    using Cons.prems
    by (auto simp add: Cons.IH find_append fst_enum_step update_conv'
        split: option.splits)
qed

lemma fold_enum_step_proto:
  "map_of (fst (fold (enum_step p) xs tables)) ''__proto__'' = map_of (fst tables) ''__proto__''"
proof (induction xs arbitrary: tables)
  case Nil
  then show ?case by simp
next
  case (Cons x xs)
  show ?case by (simp add: Cons.IH fst_enum_step update_conv')
qed

lemma fold_enum_step_decode:
  "map_of (snd (fold (enum_step p) xs tables)) i =
     (case find (\<lambda>kv. snd kv = i) (rev xs) of
        Some kv \<Rightarrow> Some (strip_prefix p (fst kv))
      | None \<Rightarrow> map_of (snd tables) i)"
proof (induction xs arbitrary: tables)
  case Nil
  then show ?case by simp
next
  case (Cons x xs)
  show ?case
    by (auto simp add: Cons.IH find_append snd_enum_step update_conv'
        split: option.splits)
qed

lemma fold_enum_step_distinct:
  "distinct (map fst (fst tables)) \<Longrightarrow> distinct (map fst (snd tables))
   \<Longrightarrow> distinct (map fst (fst (fold (enum_step p) xs tables)))
       \<and> distinct (map fst (snd (fold (enum_step p) xs tables)))"
proof (induction xs arbitrary: tables)
  case Nil
  then show ?case by simp
next
  case (Cons x xs)
  have "distinct (map fst (fst (enum_step p x tables)))"
    and "distinct (map fst (snd (enum_step p x tables)))"
    using Cons.prems by (simp_all add: fst_enum_step snd_enum_step distinct_update)
  from Cons.IH[OF this] show ?case by simp
qed

text \<open>
  What the two tables of an enum hold. For a name other than \<open>__proto__\<close> the encode
  table maps the name to the integer of the last value whose name, with a leading
  \<open>EnumName_\<close> stripped, is that name; the integers are the ones of the definition. It
  never has the key \<open>__proto__\<close>. The decode table maps an integer to the stripped name
  of the last value that carries it, and has one entry for an integer. Stripping removes
  the prefix from a name that starts with it and leaves every other name as it is.
\<close>

lemma enum_tables_characterised:
  "(k \<noteq> ''__proto__'' \<longrightarrow>
      map_of (encode_table def) k =
        map_option snd
          (find (\<lambda>kv. strip_prefix (e_name def @ ''_'') (fst kv) = k) (rev (e_values def))))
   \<and> map_of (encode_table def) ''__proto__'' = None
   \<and> map_of (decode_table def) i =
     map_option (\<lambda>kv. strip_prefix (e_name def @ ''_'') (fst kv))
       (find (\<lambda>kv. snd kv = i) (rev (e_values def)))
   \<and> distinct (map fst (encode_table def))
   \<and> distinct (map fst (decode_table def))
   \<and> strip_prefix (e_name def @ ''_'') ((e_name def @ ''_'') @ rest) = rest
   \<and> (take (length (e_name def @ ''_'')) key \<noteq> e_name def @ ''_''
        \<longrightarrow> strip_prefix (e_name def @ ''_'') key = key)"
proof -
  have d: "distinct (map fst (encode_table def)) \<and> distinct (map fst (decode_table def))"
    unfolding encode_table_def decode_table_def enum_tables_def
    by (rule fold_enum_step_distinct) simp_all
  have e: "map_of (encode_table def) k =
        map_option snd
          (find (\<lambda>kv. strip_prefix (e_name def @ ''_'') (fst kv) = k) (rev (e_values def)))"
    if "k \<noteq> ''__proto__''"
    using fold_enum_step_encode[OF that, of "e_name def @ ''_''" "e_values def" "([], [])"]
    by (simp add: encode_table_def enum_tables_def split: option.splits)
  have p: "map_of (encode_table def) ''__proto__'' = None"
    by (simp add: encode_table_def enum_tables_def fold_enum_step_proto)
  have dc: "map_of (decode_table def) i =
     map_option (\<lambda>kv. strip_prefix (e_name def @ ''_'') (fst kv))
       (find (\<lambda>kv. snd kv = i) (rev (e_values def)))"
    by (simp add: decode_table_def enum_tables_def fold_enum_step_decode split: option.splits)
  show ?thesis
    using d e p dc by (simp add: strip_prefix_def)
qed

text \<open>
  Claim C8 asks that the encode table holds every value name, with the prefix stripped.
  The enum \<open>E\<close> has the values \<open>E_A = 1\<close> and \<open>E___proto__ = 2\<close>. The second name is
  stripped to \<open>__proto__\<close>, and the assignment \<open>encode["__proto__"] = 2\<close> stores nothing:
  the encode table has the entry of \<open>A\<close> only, while the decode table has both. The
  decoder returns the name \<open>__proto__\<close> for the integer 2, and encoding this value fails.
\<close>

theorem enum_value_proto_not_encoded:
  "strip_prefix ''E_'' ''E___proto__'' = ''__proto__''
   \<and> encode_table proto_enum = [(''A'', 1)]
   \<and> decode_table proto_enum = [(1, ''A''), (2, ''__proto__'')]
   \<and> decodeMessage proto_schema False proto_def_M [0x08, 0x02]
       = Inr (Object [(''e'', Str (js_string ''__proto__''))])
   \<and> encodeMessage proto_schema False proto_def_M
         (Object [(''e'', Str (js_string ''__proto__''))])
       = Inl TypeError
   \<and> encodeMessage proto_schema False proto_def_M (Object [(''e'', Str (js_string ''A''))])
       = Inr [0x08, 0x01]"
  by code_simp

section \<open>The bound on varints\<close>

lemma readVarint32_malformed:
  "10 \<le> length (ahead b) \<Longrightarrow> \<forall>x \<in> set (take 10 (ahead b)). x AND 0x80 \<noteq> 0
   \<Longrightarrow> offset b + 10 \<le> limit b \<Longrightarrow> readVarint32 b = Inl MalformedVarint"
  using read_varint_malformed[of 10 b] by (simp add: readVarint32_def)

lemma readVarint64_malformed:
  "10 \<le> length (ahead b) \<Longrightarrow> \<forall>x \<in> set (take 10 (ahead b)). x AND 0x80 \<noteq> 0
   \<Longrightarrow> offset b + 10 \<le> limit b \<Longrightarrow> readVarint64 b = Inl MalformedVarint"
  using read_varint_malformed[of 10 b] by (simp add: readVarint64_def)

lemma read_bool_one_byte:
  assumes "10 \<le> length (ahead b)"
    and "\<forall>x \<in> set (take 10 (ahead b)). x AND 0x80 \<noteq> 0"
    and "offset b + 10 \<le> limit b"
  shows "read_scalar K_bool b =
     Inr (Boolean True, b\<lparr>offset := offset b + 1, ahead := tl (ahead b)\<rparr>)"
proof -
  from assms(1) obtain x rest where a: "ahead b = x # rest" by (cases "ahead b") auto
  with assms(2) have "x AND 0x80 \<noteq> 0" by simp
  then have "x \<noteq> 0" by auto
  then show ?thesis using assms(3) by (simp add: read_scalar_def readByte_def a)
qed

text \<open>
  Claim C9, as the claim states it, fails: the bound of 10 bytes does not apply to the
  varint consumed while skipping an unknown field of wire type VARINT. A message without
  fields decodes the tag \<open>0x08\<close> (field 1, VARINT) followed by eleven bytes with the high
  bit set and a terminating byte: the skip loop takes all twelve bytes and the decoder
  returns the empty message.
\<close>

theorem skip_varint_unbounded:
  "decodeMessage \<lparr>s_package = None, s_enums = [], s_messages = []\<rparr> False
     \<lparr>m_name = ''M'', m_fields = []\<rparr>
     [0x08, 0x80, 0x80, 0x80, 0x80, 0x80, 0x80, 0x80, 0x80, 0x80, 0x80, 0x80, 0x00]
   = Inr (Object [])"
  by code_simp

text \<open>
  Claim C9, amended. Every varint read through the varint primitives is malformed input
  when its first ten bytes all have the high bit set: the tag read by the decode loop, the
  length read by \<open>pushTemporaryLength\<close>, by the reads of bytes and strings and by the skip
  of a length-delimited unknown field, the values of the types \<open>int32\<close>, \<open>int64\<close>,
  \<open>sint32\<close>, \<open>sint64\<close>, \<open>uint32\<close>, \<open>uint64\<close> and of enums. Two reads of the wire
  type VARINT have no such bound. The value of a \<open>bool\<close> is not read as a varint: the
  read takes one byte, and on the same ten bytes it returns \<open>true\<close> and leaves the cursor
  behind the first of them. The skip of an unknown VARINT field takes any number
  \<open>length cs\<close> of bytes with the high bit set up to the terminating byte \<open>t\<close>.
\<close>

theorem varint_reads_bounded:
  assumes "10 \<le> length (ahead b)"
    and "\<forall>x \<in> set (take 10 (ahead b)). x AND 0x80 \<noteq> 0"
    and "offset b + 10 \<le> limit b"
    and "ahead c = cs @ t # rest"
    and "\<forall>x \<in> set cs. x AND 0x80 \<noteq> 0"
    and "t AND 0x80 = 0"
    and "offset c + int (length cs) + 1 \<le> limit c"
  shows "readVarint32 b = Inl MalformedVarint
    \<and> readVarint64 b = Inl MalformedVarint
    \<and> decode_loop (Suc n) dec sch es6 def b message = Inl MalformedVarint
    \<and> pushTemporaryLength b = Inl MalformedVarint
    \<and> read_scalar K_bytes b = Inl MalformedVarint
    \<and> read_scalar K_string b = Inl MalformedVarint
    \<and> read_scalar K_int32 b = Inl MalformedVarint
    \<and> read_scalar K_int64 b = Inl MalformedVarint
    \<and> read_scalar K_sint32 b = Inl MalformedVarint
    \<and> read_scalar K_sint64 b = Inl MalformedVarint
    \<and> read_scalar K_uint32 b = Inl MalformedVarint
    \<and> read_scalar K_uint64 b = Inl MalformedVarint
    \<and> read_enum sch False ty b = Inl MalformedVarint
    \<and> skipUnknownField b TYPE_SIZE_N = Inl MalformedVarint
    \<and> skipUnknownField c TYPE_VAR_INT =
          Inr (c\<lparr>offset := offset c + int (length cs) + 1, ahead := rest\<rparr>)
    \<and> read_scalar K_bool b =
          Inr (Boolean True, b\<lparr>offset := offset b + 1, ahead := tl (ahead b)\<rparr>)"
proof -
  note r32 = readVarint32_malformed[OF assms(1-3)]
  note r64 = readVarint64_malformed[OF assms(1-3)]
  have "remaining b > 0" using assms(3) by (simp add: remaining_def)
  then have loop: "decode_loop (Suc n) dec sch es6 def b message = Inl MalformedVarint"
    by (simp add: r32)
  have skipn: "skipUnknownField b TYPE_SIZE_N = Inl MalformedVarint"
    by (simp add: skipUnknownField_def r32 TYPE_SIZE_N_def TYPE_VAR_INT_def)
  have skipv: "skipUnknownField c TYPE_VAR_INT =
           Inr (c\<lparr>offset := offset c + int (length cs) + 1, ahead := rest\<rparr>)"
    by (simp add: skipUnknownField_def skip_varint_bytes[OF assms(4-7)])
  have bool: "read_scalar K_bool b =
          Inr (Boolean True, b\<lparr>offset := offset b + 1, ahead := tl (ahead b)\<rparr>)"
    by (rule read_bool_one_byte[OF assms(1-3)])
  have others: "readVarint32 b = Inl MalformedVarint
    \<and> readVarint64 b = Inl MalformedVarint
    \<and> decode_loop (Suc n) dec sch es6 def b message = Inl MalformedVarint
    \<and> pushTemporaryLength b = Inl MalformedVarint
    \<and> read_scalar K_bytes b = Inl MalformedVarint
    \<and> read_scalar K_string b = Inl MalformedVarint
    \<and> read_scalar K_int32 b = Inl MalformedVarint
    \<and> read_scalar K_int64 b = Inl MalformedVarint
    \<and> read_scalar K_sint32 b = Inl MalformedVarint
    \<and> read_scalar K_sint64 b = Inl MalformedVarint
    \<and> read_scalar K_uint32 b = Inl MalformedVarint
    \<and> read_scalar K_uint64 b = Inl MalformedVarint
    \<and> read_enum sch False ty b = Inl MalformedVarint
    \<and> skipUnknownField b TYPE_SIZE_N = Inl MalformedVarint"
    using loop skipn
    by (simp add: r32 r64 pushTemporaryLength_def read_scalar_def read_enum_def)
  show ?thesis using others skipv bool by blast
qed

theorem varint_reads_bounded_witness:
  "readVarint32 \<lparr>offset = 0, limit = 10,
      ahead = [0x80, 0x80, 0x80, 0x80, 0x80, 0x80, 0x80, 0x80, 0x80, 0x80]\<rparr>
     = Inl MalformedVarint
   \<and> skipUnknownField \<lparr>offset = 0, limit = 12,
        ahead = [0x80, 0x80, 0x80, 0x80, 0x80, 0x80, 0x80, 0x80, 0x80, 0x80, 0x80, 0x00]\<rparr>
        TYPE_VAR_INT
     = Inr \<lparr>offset = 12, limit = 12, ahead = []\<rparr>
   \<and> read_scalar K_bool \<lparr>offset = 0, limit = 10,
        ahead = [0x80, 0x80, 0x80, 0x80, 0x80, 0x80, 0x80, 0x80, 0x80, 0x80]\<rparr>
     = Inr (Boolean True, \<lparr>offset = 1, limit = 10,
        ahead = [0x80, 0x80, 0x80, 0x80, 0x80, 0x80, 0x80, 0x80, 0x80]\<rparr>)"
  using varint_reads_bounded[
      of "\<lparr>offset = 0, limit = 10,
            ahead = [0x80, 0x80, 0x80, 0x80, 0x80, 0x80, 0x80, 0x80, 0x80, 0x80]\<rparr>"
         "\<lparr>offset = 0, limit = 12,
            ahead = [0x80, 0x80, 0x80, 0x80, 0x80, 0x80, 0x80, 0x80, 0x80, 0x80, 0x80, 0x00]\<rparr>"
         "[0x80, 0x80, 0x80, 0x80, 0x80, 0x80, 0x80, 0x80, 0x80, 0x80, 0x80]" "0x00" "[]"]
  by simp

section \<open>Names that plain objects inherit\<close>

text \<open>
  Claim C2 asks for a validation error whenever a field with \<open>packed = true\<close> has a type
  that is not pack-eligible. The test \<open>field.type in packableTypes\<close> also holds for a
  name that the object inherits: a repeated field whose type is the message \<open>toString\<close>
  passes the validation with \<open>packed = true\<close>, and \<open>generate\<close> returns the module.
\<close>

theorem packed_message_type_not_rejected:
  "generate (inherited_type_schema True (Some ''true'')) False =
     Inr \<lparr>enum_exports = [], message_exports = [''toString'', ''M'']\<rparr>"
  by code_simp

text \<open>
  Claim C5 asks for the wire type LENGTH_DELIMITED for every embedded-message type. The
  test \<open>field.type in enums\<close> also holds for a name that the object inherits: a field
  whose type is the message \<open>toString\<close> gets the wire type VARINT and the write of an enum,
  and encoding a value of it fails.
\<close>

theorem message_type_gets_varint:
  "wire_type (inherited_type_schema False None) ''toString'' = TYPE_VAR_INT
   \<and> encodeMessage (inherited_type_schema False None) False
        \<lparr>m_name = ''M'',
          m_fields = [\<lparr>f_name = ''t'', f_type = ''toString'', f_tag = 1, f_required = False,
                       f_repeated = False, f_packed = None\<rparr>]\<rparr>
        (Object [(''t'', Object [])]) = Inl TypeError"
  by code_simp

text \<open>
  Claim C10 asks that a repeated field of a message type mapped to an empty sequence, and
  a pack-eligible repeated field whose key is absent, contribute no bytes. A repeated field
  of the message type \<open>toString\<close> mapped to the empty sequence contributes the tag \<open>0x0A\<close>
  and the length 0, and so does a repeated \<open>int32\<close> field named \<open>valueOf\<close> whose key is
  absent: \<open>message["valueOf"]\<close> is the inherited function, which is not undefined and has
  length 0.
\<close>

theorem empty_sequence_inherited_names:
  "encodeMessage (inherited_type_schema True None) False
        \<lparr>m_name = ''M'',
          m_fields = [\<lparr>f_name = ''t'', f_type = ''toString'', f_tag = 1, f_required = False,
                       f_repeated = True, f_packed = None\<rparr>]\<rparr>
        (Object [(''t'', Array [])]) = Inr [0x0A, 0x00]
   \<and> encodeMessage (inherited_name_schema ''valueOf'') False
        \<lparr>m_name = ''M'',
          m_fields = [\<lparr>f_name = ''valueOf'', f_type = ''int32'', f_tag = 1, f_required = False,
                       f_repeated = True, f_packed = None\<rparr>]\<rparr>
        (Object []) = Inr [0x0A, 0x00]"
  by code_simp

text \<open>
  Claim C4 asks that the decoder of a repeated pack-eligible field appends the elements of
  either encoding. For a repeated \<open>int32\<close> field named \<open>toString\<close> the expression
  \<open>message["toString"] || (message["toString"] = [])\<close> yields the inherited function,
  which has no \<open>push\<close>: both encodings of the element 1 fail, where the same field under
  the name \<open>xs\<close> decodes.
\<close>

theorem repeated_field_inherited_name:
  "decodeMessage (inherited_name_schema ''toString'') False
        \<lparr>m_name = ''M'',
          m_fields = [\<lparr>f_name = ''toString'', f_type = ''int32'', f_tag = 1, f_required = False,
                       f_repeated = True, f_packed = None\<rparr>]\<rparr>
        [0x08, 0x01] = Inl TypeError
   \<and> decodeMessage (inherited_name_schema ''toString'') False
        \<lparr>m_name = ''M'',
          m_fields = [\<lparr>f_name = ''toString'', f_type = ''int32'', f_tag = 1, f_required = False,
                       f_repeated = True, f_packed = None\<rparr>]\<rparr>
        [0x0A, 0x01, 0x01] = Inl TypeError
   \<and> decodeMessage (inherited_name_schema ''xs'') False
        \<lparr>m_name = ''M'',
          m_fields = [\<lparr>f_name = ''xs'', f_type = ''int32'', f_tag = 1, f_required = False,
                       f_repeated = True, f_packed = None\<rparr>]\<rparr>
        [0x0A, 0x01, 0x01] = Inr (Object [(''xs'', Array [Number 1])])"
  by code_simp

section \<open>Unknown fields\<close>

lemma readVarint32_varint:
  assumes "n < 2 ^ 64" "ahead b = varint n @ rest" "offset b + int (length (varint n)) \<le> limit b"
  shows "readVarint32 b =
           Inr (word_of_nat n, b\<lparr>offset := offset b + int (length (varint n)), ahead := rest\<rparr>)"
  by (simp add: readVarint32_def read_varint_10[OF assms])

lemma readVarint64_varint:
  assumes "n < 2 ^ 64" "ahead b = varint n @ rest" "offset b + int (length (varint n)) \<le> limit b"
  shows "readVarint64 b =
           Inr (word_of_nat n, b\<lparr>offset := offset b + int (length (varint n)), ahead := rest\<rparr>)"
  by (simp add: readVarint64_def read_varint_10[OF assms])

lemma sint_word32_of_int:
  "- (2 ^ 31) \<le> k \<Longrightarrow> k < 2 ^ 31 \<Longrightarrow> sint (word_of_int k :: 32 word) = k"
  by (simp add: signed_of_int signed_take_bit_int_eq_self)

lemma sint_length_31: "n < 2 ^ 31 \<Longrightarrow> sint (word_of_nat n :: 32 word) = int n"
  using sint_word32_of_int[of "int n"] by simp

text \<open>
  Claim C6. In a round of the decode loop whose tag has a field number other than 0 that
  no field declares, the field is skipped by the wire-type bits of the tag and the loop
  goes on with the next tag and the same message: for VARINT over the bytes with the high
  bit set and the byte that ends them, for LENGTH_DELIMITED over a varint length and that
  many bytes, for FIXED32 over four bytes, for FIXED64 over eight. Any other wire type
  (3, 4, 6 or 7) ends the decoding with the error \<open>Unimplemented type\<close> that carries it.
\<close>

theorem unknown_field_skipped:
  assumes "remaining b > 0"
    and "readVarint32 b = Inr (tag, b1)"
    and "drop_bit 3 tag \<noteq> 0"
    and "find (\<lambda>field. f_tag field = uint (drop_bit 3 tag)) (m_fields def) = None"
  shows
    "(unat (tag AND 7) = 0 \<and> ahead b1 = cs @ t # rest \<and> (\<forall>x \<in> set cs. x AND 0x80 \<noteq> 0)
        \<and> t AND 0x80 = 0 \<and> offset b1 + int (length cs) + 1 \<le> limit b1
      \<longrightarrow> decode_loop (Suc n) dec sch es6 def b message =
          decode_loop n dec sch es6 def
            (b1\<lparr>offset := offset b1 + int (length cs) + 1, ahead := rest\<rparr>) message)
   \<and> (unat (tag AND 7) = 2 \<and> ahead b1 = varint (length payload) @ payload @ rest
        \<and> length payload < 2 ^ 31
        \<and> offset b1 + int (length (varint (length payload))) + int (length payload) \<le> limit b1
      \<longrightarrow> decode_loop (Suc n) dec sch es6 def b message =
          decode_loop n dec sch es6 def
            (b1\<lparr>offset := offset b1 + int (length (varint (length payload)))
                              + int (length payload),
                 ahead := rest\<rparr>) message)
   \<and> (unat (tag AND 7) = 5 \<and> ahead b1 = four @ rest \<and> length four = 4
        \<and> offset b1 + 4 \<le> limit b1
      \<longrightarrow> decode_loop (Suc n) dec sch es6 def b message =
          decode_loop n dec sch es6 def (b1\<lparr>offset := offset b1 + 4, ahead := rest\<rparr>) message)
   \<and> (unat (tag AND 7) = 1 \<and> ahead b1 = eight @ rest \<and> length eight = 8
        \<and> offset b1 + 8 \<le> limit b1
      \<longrightarrow> decode_loop (Suc n) dec sch es6 def b message =
          decode_loop n dec sch es6 def (b1\<lparr>offset := offset b1 + 8, ahead := rest\<rparr>) message)
   \<and> (unat (tag AND 7) \<notin> {0, 1, 2, 5}
      \<longrightarrow> decode_loop (Suc n) dec sch es6 def b message =
          Inl (UnimplementedType (unat (tag AND 7))))"
proof -
  have step: "decode_loop (Suc n) dec sch es6 def b message =
      (case skipUnknownField b1 (unat (tag AND 7)) of
         Inl e \<Rightarrow> Inl e
       | Inr b2 \<Rightarrow> decode_loop n dec sch es6 def b2 message)"
    using assms by simp
  have varint_case: "skipUnknownField b1 (unat (tag AND 7)) =
      Inr (b1\<lparr>offset := offset b1 + int (length cs) + 1, ahead := rest\<rparr>)"
    if "unat (tag AND 7) = 0" "ahead b1 = cs @ t # rest" "\<forall>x \<in> set cs. x AND 0x80 \<noteq> 0"
       "t AND 0x80 = 0" "offset b1 + int (length cs) + 1 \<le> limit b1"
    using that(1) skip_varint_bytes[OF that(2-5)]
    by (simp add: skipUnknownField_def TYPE_VAR_INT_def)
  have sized_case: "skipUnknownField b1 (unat (tag AND 7)) =
      Inr (b1\<lparr>offset := offset b1 + int (length (varint (length payload)))
                              + int (length payload), ahead := rest\<rparr>)"
    if "unat (tag AND 7) = 2" "ahead b1 = varint (length payload) @ payload @ rest"
       "length payload < 2 ^ 31"
       "offset b1 + int (length (varint (length payload))) + int (length payload) \<le> limit b1"
  proof -
    let ?b2 = "b1\<lparr>offset := offset b1 + int (length (varint (length payload))),
                   ahead := payload @ rest\<rparr>"
    have "length payload < 2 ^ 64" using that(3) by (simp add: order_less_trans)
    then have rd: "readVarint32 b1 = Inr (word_of_nat (length payload), ?b2)"
      using that by (intro readVarint32_varint) simp_all
    have sk: "skip (int (length payload)) ?b2 =
        Inr (?b2\<lparr>offset := offset ?b2 + int (length payload), ahead := rest\<rparr>)"
      using that by (intro skip_append) simp_all
    show ?thesis
      using that(1) sk
      by (simp add: skipUnknownField_def TYPE_VAR_INT_def TYPE_SIZE_N_def rd
          sint_length_31[OF that(3)])
  qed
  have four_case: "skipUnknownField b1 (unat (tag AND 7)) =
      Inr (b1\<lparr>offset := offset b1 + 4, ahead := rest\<rparr>)"
    if "unat (tag AND 7) = 5" "ahead b1 = four @ rest" "length four = 4"
       "offset b1 + 4 \<le> limit b1"
    using that skip_append[of b1 four rest]
    by (simp add: skipUnknownField_def TYPE_VAR_INT_def TYPE_SIZE_N_def TYPE_SIZE_4_def)
  have eight_case: "skipUnknownField b1 (unat (tag AND 7)) =
      Inr (b1\<lparr>offset := offset b1 + 8, ahead := rest\<rparr>)"
    if "unat (tag AND 7) = 1" "ahead b1 = eight @ rest" "length eight = 8"
       "offset b1 + 8 \<le> limit b1"
    using that skip_append[of b1 eight rest]
    by (simp add: skipUnknownField_def TYPE_VAR_INT_def TYPE_SIZE_N_def TYPE_SIZE_4_def
        TYPE_SIZE_8_def)
  have other_case: "skipUnknownField b1 (unat (tag AND 7)) =
      Inl (UnimplementedType (unat (tag AND 7)))"
    if "unat (tag AND 7) \<notin> {0, 1, 2, 5}"
    using that
    by (simp add: skipUnknownField_def TYPE_VAR_INT_def TYPE_SIZE_N_def TYPE_SIZE_4_def
        TYPE_SIZE_8_def)
  show ?thesis
    unfolding step
    using varint_case sized_case four_case eight_case other_case
    by simp
qed

theorem unknown_field_skipped_witness:
  "decode_loop (Suc 0) (\<lambda>d b. Inl OutOfFuel) skip_schema False skip_def_M
      \<lparr>offset = 0, limit = 4, ahead = [0x48, 0x80, 0x80, 0x00]\<rparr> []
     = Inr ([], \<lparr>offset = 4, limit = 4, ahead = []\<rparr>)
   \<and> decode_loop (Suc 0) (\<lambda>d b. Inl OutOfFuel) skip_schema False skip_def_M
      \<lparr>offset = 0, limit = 4, ahead = [0x4A, 0x02, 0x09, 0x09]\<rparr> []
     = Inr ([], \<lparr>offset = 4, limit = 4, ahead = []\<rparr>)
   \<and> decode_loop (Suc 0) (\<lambda>d b. Inl OutOfFuel) skip_schema False skip_def_M
      \<lparr>offset = 0, limit = 5, ahead = [0x4D, 1, 2, 3, 4]\<rparr> []
     = Inr ([], \<lparr>offset = 5, limit = 5, ahead = []\<rparr>)
   \<and> decode_loop (Suc 0) (\<lambda>d b. Inl OutOfFuel) skip_schema False skip_def_M
      \<lparr>offset = 0, limit = 9, ahead = [0x49, 1, 2, 3, 4, 5, 6, 7, 8]\<rparr> []
     = Inr ([], \<lparr>offset = 9, limit = 9, ahead = []\<rparr>)
   \<and> decode_loop (Suc 0) (\<lambda>d b. Inl OutOfFuel) skip_schema False skip_def_M
      \<lparr>offset = 0, limit = 1, ahead = [0x4B]\<rparr> []
     = Inl (UnimplementedType 3)"
proof -
  have r0: "readVarint32 \<lparr>offset = 0, limit = 4, ahead = [0x48, 0x80, 0x80, 0x00]\<rparr>
      = Inr (0x48, \<lparr>offset = 1, limit = 4, ahead = [0x80, 0x80, 0x00]\<rparr>)"
    by code_simp
  have r2: "readVarint32 \<lparr>offset = 0, limit = 4, ahead = [0x4A, 0x02, 0x09, 0x09]\<rparr>
      = Inr (0x4A, \<lparr>offset = 1, limit = 4, ahead = [0x02, 0x09, 0x09]\<rparr>)"
    by code_simp
  have r5: "readVarint32 \<lparr>offset = 0, limit = 5, ahead = [0x4D, 1, 2, 3, 4]\<rparr>
      = Inr (0x4D, \<lparr>offset = 1, limit = 5, ahead = [1, 2, 3, 4]\<rparr>)"
    by code_simp
  have r1: "readVarint32 \<lparr>offset = 0, limit = 9, ahead = [0x49, 1, 2, 3, 4, 5, 6, 7, 8]\<rparr>
      = Inr (0x49, \<lparr>offset = 1, limit = 9, ahead = [1, 2, 3, 4, 5, 6, 7, 8]\<rparr>)"
    by code_simp
  have r3: "readVarint32 \<lparr>offset = 0, limit = 1, ahead = [0x4B]\<rparr>
      = Inr (0x4B, \<lparr>offset = 1, limit = 1, ahead = []\<rparr>)"
    by code_simp
  have v2: "varint (Suc (Suc 0)) = [0x02]" by (simp add: varint_small)
  note th = unknown_field_skipped[where def = skip_def_M and n = 0 and message = "[]"
      and dec = "\<lambda>d b. Inl OutOfFuel" and sch = skip_schema]
  have c0: "decode_loop (Suc 0) (\<lambda>d b. Inl OutOfFuel) skip_schema False skip_def_M
      \<lparr>offset = 0, limit = 4, ahead = [0x48, 0x80, 0x80, 0x00]\<rparr> []
     = Inr ([], \<lparr>offset = 4, limit = 4, ahead = []\<rparr>)"
    using th[OF _ r0, where cs = "[0x80, 0x80]" and t = "0x00" and rest = "[]"]
    by (simp add: remaining_def skip_def_M_def del: decode_loop.simps(2))
  have c2: "decode_loop (Suc 0) (\<lambda>d b. Inl OutOfFuel) skip_schema False skip_def_M
      \<lparr>offset = 0, limit = 4, ahead = [0x4A, 0x02, 0x09, 0x09]\<rparr> []
     = Inr ([], \<lparr>offset = 4, limit = 4, ahead = []\<rparr>)"
    using th[OF _ r2, where payload = "[0x09, 0x09]" and rest = "[]"]
    by (simp add: remaining_def skip_def_M_def v2 del: decode_loop.simps(2))
  have c5: "decode_loop (Suc 0) (\<lambda>d b. Inl OutOfFuel) skip_schema False skip_def_M
      \<lparr>offset = 0, limit = 5, ahead = [0x4D, 1, 2, 3, 4]\<rparr> []
     = Inr ([], \<lparr>offset = 5, limit = 5, ahead = []\<rparr>)"
    using th[OF _ r5, where four = "[1, 2, 3, 4]" and rest = "[]"]
    by (simp add: remaining_def skip_def_M_def del: decode_loop.simps(2))
  have c1: "decode_loop (Suc 0) (\<lambda>d b. Inl OutOfFuel) skip_schema False skip_def_M
      \<lparr>offset = 0, limit = 9, ahead = [0x49, 1, 2, 3, 4, 5, 6, 7, 8]\<rparr> []
     = Inr ([], \<lparr>offset = 9, limit = 9, ahead = []\<rparr>)"
    using th[OF _ r1, where eight = "[1, 2, 3, 4, 5, 6, 7, 8]" and rest = "[]"]
    by (simp add: remaining_def skip_def_M_def del: decode_loop.simps(2))
  have c3: "decode_loop (Suc 0) (\<lambda>d b. Inl OutOfFuel) skip_schema False skip_def_M
      \<lparr>offset = 0, limit = 1, ahead = [0x4B]\<rparr> []
     = Inl (UnimplementedType 3)"
    using th[OF _ r3]
    by (simp add: remaining_def skip_def_M_def del: decode_loop.simps(2))
  show ?thesis using c0 c2 c5 c1 c3 by (simp del: decode_loop.simps)
qed

section \<open>Required fields\<close>


lemma find_first:
  "xs = pre @ x # post \<Longrightarrow> P x \<Longrightarrow> \<forall>y \<in> set pre. \<not> P y \<Longrightarrow> find P xs = Some x"
  by (induction pre arbitrary: xs) auto

lemma find_none: "\<forall>y \<in> set xs. \<not> P y \<Longrightarrow> find P xs = None"
  by (induction xs) auto




section \<open>Tags\<close>

lemma uint_tag_word:
  assumes "0 \<le> tag" "tag < 2 ^ 29" "ty < 8"
  shows "uint (tag_word tag ty) = push_bit 3 tag OR int ty"
proof -
  have a: "uint (word_of_int tag :: 32 word) = tag"
    using assms by (simp add: uint_word_of_int take_bit_int_eq_self order_less_trans[of tag "2 ^ 29"])
  have b: "take_bit 32 (push_bit 3 tag) = push_bit 3 tag"
    using assms by (simp add: take_bit_int_eq_self push_bit_eq_mult)
  have "unat (word_of_nat ty :: 32 word) = ty"
    using assms by (simp add: unat_of_nat)
  then have c: "uint (word_of_nat ty :: 32 word) = int ty"
    by (simp add: uint_nat)
  show ?thesis
    unfolding tag_word_def by (simp add: unsigned_or_eq unsigned_push_bit_eq a b c)
qed

lemma tag_word_number:
  assumes "0 \<le> tag" "tag < 2 ^ 29" "ty < 8"
  shows "uint (drop_bit 3 (tag_word tag ty)) = tag"
proof -
  have t1: "take_bit 32 (push_bit 3 tag) = push_bit 3 tag"
    using assms by (simp add: take_bit_int_eq_self push_bit_eq_mult)
  have t2: "take_bit 32 (int ty) = int ty"
    using assms by (simp add: take_bit_int_eq_self)
  have d: "drop_bit 3 (int ty) = 0" using assms by (simp add: drop_bit_eq_div)
  show ?thesis
    by (simp add: unsigned_drop_bit_eq uint_tag_word[OF assms] t1 t2 d drop_bit_push_bit_int)
qed

lemma tag_word_wire_type:
  assumes "0 \<le> tag" "tag < 2 ^ 29" "ty < 8"
  shows "unat (tag_word tag ty AND 7) = ty"
proof -
  have m: "(7 :: int) = mask 3" by (simp add: mask_eq_exp_minus_1)
  have "uint (tag_word tag ty AND 7) = (push_bit 3 tag OR int ty) AND 7"
    by (simp add: unsigned_and_eq uint_tag_word[OF assms])
  also have "\<dots> = take_bit 3 (push_bit 3 tag OR int ty)"
    unfolding m by (simp add: take_bit_eq_mask)
  also have "\<dots> = int ty"
    using assms by (simp add: take_bit_push_bit take_bit_int_eq_self)
  finally show ?thesis by (simp add: unat_eq_nat_uint)
qed

lemma tag_word_nonzero:
  assumes "0 < tag" "tag < 2 ^ 29" "ty < 8"
  shows "drop_bit 3 (tag_word tag ty) \<noteq> 0"
proof
  assume "drop_bit 3 (tag_word tag ty) = 0"
  then have "uint (drop_bit 3 (tag_word tag ty)) = 0" by simp
  then show False using tag_word_number[of tag ty] assms by simp
qed

section \<open>Packed repeated fields\<close>

lemma js_get_own: "map_of message key = Some v \<Longrightarrow> js_get message key = v"
  by (simp add: js_get_def)

lemma kind_of_packable_scalar:
  "ty \<in> set packable_scalars \<Longrightarrow> kind_of sch ty \<noteq> K_enum \<and> kind_of sch ty \<noteq> K_message"
  by (auto simp: packable_scalars_def kind_of_def)

lemma write_value_scalar:
  "ty \<in> set packable_scalars
   \<Longrightarrow> write_value enc sch es6 ty v = write_scalar (kind_of sch ty) v"
  using kind_of_packable_scalar[of ty sch] by (simp add: write_value_def)

lemma js_string_eq_iff: "js_string a = js_string b \<longleftrightarrow> a = b"
  by (simp add: js_string_def inj_map_eq_map inj_on_def)

lemma map_of_js_string:
  "map_of (map (\<lambda>kv. (js_string (fst kv), snd kv)) tbl) (js_string name) = map_of tbl name"
  by (induction tbl) (auto simp: js_string_eq_iff)

lemma write_enum_declared:
  assumes "\<not> es6" "lookup_message sch ty = None" "lookup_enum sch ty = Some d"
    "map_of (encode_table d) name = Some n"
  shows "write_enum sch es6 ty (Str (js_string name)) = Inr (writeVarint32 (word_of_int n))"
  using assms by (simp add: write_enum_def to_key_def map_of_js_string)

lemma kind_of_enum:
  "ty \<notin> set scalar_types \<Longrightarrow> ty \<in> set (enums sch) \<Longrightarrow> kind_of sch ty = K_enum"
  by (simp add: scalar_types_def kind_of_def js_in_def)

text \<open>
  Claim C3. A repeated field whose type is pack-eligible (a numeric or bool scalar, or a
  declared enum) and whose value is a sequence is encoded in the packed form unless its
  option \<open>packed\<close> is the string \<open>false\<close>: the tag \<open>(number << 3) | 2\<close> once, the varint of
  the byte length of the concatenated element encodings, then these bytes; every element
  is written by the write of its type and without a tag. For a scalar type this write is
  the scalar primitive. For a declared enum it is the write of an enum, which for the
  name of a value writes the varint of the integer that the encode table gives the name.
  With \<open>packed = false\<close> every element is written after a tag of its own wire type.
\<close>

theorem packed_form_encoded:
  assumes "f_repeated field"
    and "f_type field \<in> set packable_scalars \<or> f_type field \<in> set (enums sch)"
    and "0 < f_tag field" and "f_tag field < 2 ^ 29"
    and "map_of message (f_name field) = Some (Array vs)"
    and "collect (map (write_value enc sch es6 (f_type field)) vs) = Inr chunks"
    and "length (concat chunks) < 2 ^ 32"
  shows
    "(f_packed field \<noteq> Some ''false''
        \<longrightarrow> encode_field enc sch es6 field message =
            Inr (writeVarint32 (tag_word (f_tag field) TYPE_SIZE_N)
                 @ varint (length (concat chunks)) @ concat chunks))
   \<and> (f_packed field = Some ''false''
        \<longrightarrow> encode_field enc sch es6 field message =
            Inr (concat (map (\<lambda>c. writeVarint32
                   (tag_word (f_tag field) (wire_type sch (f_type field))) @ c) chunks)))
   \<and> unat (tag_word (f_tag field) TYPE_SIZE_N AND 7) = 2
   \<and> uint (drop_bit 3 (tag_word (f_tag field) TYPE_SIZE_N)) = f_tag field
   \<and> (f_type field \<in> set packable_scalars
        \<longrightarrow> write_value enc sch es6 (f_type field) =
            write_scalar (kind_of sch (f_type field)))
   \<and> (f_type field \<notin> set scalar_types
        \<longrightarrow> write_value enc sch es6 (f_type field) = write_enum sch es6 (f_type field))
   \<and> (\<forall>d name n.
         \<not> es6 \<and> lookup_message sch (f_type field) = None
         \<and> lookup_enum sch (f_type field) = Some d
         \<and> map_of (encode_table d) name = Some n
        \<longrightarrow> write_enum sch es6 (f_type field) (Str (js_string name)) =
            Inr (writeVarint32 (word_of_int n)))"
proof -
  have g: "js_get message (f_name field) = Array vs"
    using assms(5) by (rule js_get_own)
  have p: "js_in (f_type field) (packableTypes sch)"
    using assms(2) by (auto simp: js_in_def packableTypes_def enums_def)
  have len: "unat (word_of_nat (length (concat chunks)) :: 32 word) = length (concat chunks)"
    using assms(7) by (simp add: unat_of_nat)
  have packed: "encode_field enc sch es6 field message =
            Inr (writeVarint32 (tag_word (f_tag field) TYPE_SIZE_N)
                 @ varint (length (concat chunks)) @ concat chunks)"
    if "f_packed field \<noteq> Some ''false''"
    using that assms(1,6) p
    by (simp add: encode_field_def g isPacked_def writeVarint32_def[of "word_of_nat _"] len)
  have unpacked: "encode_field enc sch es6 field message =
            Inr (concat (map (\<lambda>c. writeVarint32
                   (tag_word (f_tag field) (wire_type sch (f_type field))) @ c) chunks))"
    if "f_packed field = Some ''false''"
    using that assms(1,6)
    by (simp add: encode_field_def g isPacked_def)
  have w: "unat (tag_word (f_tag field) TYPE_SIZE_N AND 7) = 2"
    using assms(3,4) tag_word_wire_type[of "f_tag field" TYPE_SIZE_N]
    by (simp add: TYPE_SIZE_N_def)
  have n: "uint (drop_bit 3 (tag_word (f_tag field) TYPE_SIZE_N)) = f_tag field"
    using assms(3,4) tag_word_number[of "f_tag field" TYPE_SIZE_N]
    by (simp add: TYPE_SIZE_N_def)
  have s: "write_value enc sch es6 (f_type field) = write_scalar (kind_of sch (f_type field))"
    if "f_type field \<in> set packable_scalars"
    using write_value_scalar[OF that] by (intro ext)
  have e: "write_value enc sch es6 (f_type field) = write_enum sch es6 (f_type field)"
    if "f_type field \<notin> set scalar_types"
  proof -
    from that have "f_type field \<notin> set packable_scalars"
      by (auto simp: scalar_types_def packable_scalars_def)
    with assms(2) have "f_type field \<in> set (enums sch)" by simp
    from kind_of_enum[OF that this] show ?thesis
      by (intro ext) (simp add: write_value_def)
  qed
  have t: "\<forall>d name n.
         \<not> es6 \<and> lookup_message sch (f_type field) = None
         \<and> lookup_enum sch (f_type field) = Some d
         \<and> map_of (encode_table d) name = Some n
        \<longrightarrow> write_enum sch es6 (f_type field) (Str (js_string name)) =
            Inr (writeVarint32 (word_of_int n))"
    using write_enum_declared by blast
  show ?thesis using packed unpacked w n s e t by blast
qed

theorem packed_form_encoded_witness:
  "encode_field (\<lambda>d v. Inl OutOfFuel) skip_schema False
      \<lparr>f_name = ''xs'', f_type = ''sint32'', f_tag = 3, f_required = False,
        f_repeated = True, f_packed = None\<rparr>
      [(''xs'', Array [Number (- 1), Number 300])]
     = Inr [0x1A, 0x03, 0x01, 0xD8, 0x04]
   \<and> encode_field (\<lambda>d v. Inl OutOfFuel) skip_schema False
      \<lparr>f_name = ''xs'', f_type = ''sint32'', f_tag = 3, f_required = False,
        f_repeated = True, f_packed = Some ''false''\<rparr>
      [(''xs'', Array [Number (- 1), Number 300])]
     = Inr [0x18, 0x01, 0x18, 0xD8, 0x04]
   \<and> encode_field (\<lambda>d v. Inl OutOfFuel) level_schema False
      \<lparr>f_name = ''xs'', f_type = ''Level'', f_tag = 3, f_required = False,
        f_repeated = True, f_packed = None\<rparr>
      [(''xs'', Array [Str (js_string ''HIGH''), Str (js_string ''LOW'')])]
     = Inr [0x1A, 0x03, 0xAC, 0x02, 0x01]
   \<and> write_value (\<lambda>d v. Inl OutOfFuel) level_schema False ''Level''
        (Str (js_string ''HIGH''))
     = Inr [0xAC, 0x02]"
proof -
  have c: "collect (map (write_value (\<lambda>d v. Inl OutOfFuel) skip_schema False ''sint32'')
      [Number (- 1), Number 300]) = Inr [[0x01], [0xD8, 0x04]]"
    by code_simp
  have e1: "Inr (writeVarint32 (tag_word 3 TYPE_SIZE_N)
                 @ varint (length (concat [[0x01 :: byte], [0xD8, 0x04]]))
                 @ concat [[0x01], [0xD8, 0x04]])
      = (Inr [0x1A, 0x03, 0x01, 0xD8, 0x04] :: error + byte list)"
    by code_simp
  have e2: "Inr (concat (map (\<lambda>c. writeVarint32
                   (tag_word 3 (wire_type skip_schema ''sint32'')) @ c)
                   [[0x01 :: byte], [0xD8, 0x04]]))
      = (Inr [0x18, 0x01, 0x18, 0xD8, 0x04] :: error + byte list)"
    by code_simp
  have c1: "encode_field (\<lambda>d v. Inl OutOfFuel) skip_schema False
      \<lparr>f_name = ''xs'', f_type = ''sint32'', f_tag = 3, f_required = False,
        f_repeated = True, f_packed = None\<rparr>
      [(''xs'', Array [Number (- 1), Number 300])]
     = Inr [0x1A, 0x03, 0x01, 0xD8, 0x04]"
    unfolding e1[symmetric]
    using packed_form_encoded[where field = "\<lparr>f_name = ''xs'', f_type = ''sint32'',
        f_tag = 3, f_required = False, f_repeated = True, f_packed = None\<rparr>"
        and message = "[(''xs'', Array [Number (- 1), Number 300])]"
        and enc = "\<lambda>d v. Inl OutOfFuel" and sch = skip_schema
        and vs = "[Number (- 1), Number 300]" and chunks = "[[0x01], [0xD8, 0x04]]"]
      c
    by (simp add: packable_scalars_def)
  have c2: "encode_field (\<lambda>d v. Inl OutOfFuel) skip_schema False
      \<lparr>f_name = ''xs'', f_type = ''sint32'', f_tag = 3, f_required = False,
        f_repeated = True, f_packed = Some ''false''\<rparr>
      [(''xs'', Array [Number (- 1), Number 300])]
     = Inr [0x18, 0x01, 0x18, 0xD8, 0x04]"
    unfolding e2[symmetric]
    using packed_form_encoded[where field = "\<lparr>f_name = ''xs'', f_type = ''sint32'',
        f_tag = 3, f_required = False, f_repeated = True, f_packed = Some ''false''\<rparr>"
        and message = "[(''xs'', Array [Number (- 1), Number 300])]"
        and enc = "\<lambda>d v. Inl OutOfFuel" and sch = skip_schema
        and vs = "[Number (- 1), Number 300]" and chunks = "[[0x01], [0xD8, 0x04]]"]
      c
    by (simp add: packable_scalars_def)
  have ce: "collect (map (write_value (\<lambda>d v. Inl OutOfFuel) level_schema False ''Level'')
      [Str (js_string ''HIGH''), Str (js_string ''LOW'')]) = Inr [[0xAC, 0x02], [0x01]]"
    by code_simp
  have e3: "Inr (writeVarint32 (tag_word 3 TYPE_SIZE_N)
                 @ varint (length (concat [[0xAC :: byte, 0x02], [0x01]]))
                 @ concat [[0xAC, 0x02], [0x01]])
      = (Inr [0x1A, 0x03, 0xAC, 0x02, 0x01] :: error + byte list)"
    by code_simp
  have en: "''Level'' \<in> set (enums level_schema)" "''Level'' \<notin> set scalar_types"
    by (simp_all add: enums_def level_schema_def level_enum_def scalar_types_def)
  have lk: "lookup_message level_schema ''Level'' = None"
    "lookup_enum level_schema ''Level'' = Some level_enum"
    "map_of (encode_table level_enum) ''HIGH'' = Some 300"
    by code_simp+
  have e4: "Inr (writeVarint32 (word_of_int 300)) = (Inr [0xAC, 0x02] :: error + byte list)"
    by code_simp
  note enum_case = packed_form_encoded[where field = "\<lparr>f_name = ''xs'', f_type = ''Level'',
        f_tag = 3, f_required = False, f_repeated = True, f_packed = None\<rparr>"
        and message = "[(''xs'', Array [Str (js_string ''HIGH''), Str (js_string ''LOW'')])]"
        and enc = "\<lambda>d v. Inl OutOfFuel" and sch = level_schema and ?es6.0 = False
        and vs = "[Str (js_string ''HIGH''), Str (js_string ''LOW'')]"
        and chunks = "[[0xAC, 0x02], [0x01]]"]
  have c3: "encode_field (\<lambda>d v. Inl OutOfFuel) level_schema False
      \<lparr>f_name = ''xs'', f_type = ''Level'', f_tag = 3, f_required = False,
        f_repeated = True, f_packed = None\<rparr>
      [(''xs'', Array [Str (js_string ''HIGH''), Str (js_string ''LOW'')])]
     = Inr [0x1A, 0x03, 0xAC, 0x02, 0x01]"
    unfolding e3[symmetric]
    using enum_case ce en by simp
  have c4: "write_value (\<lambda>d v. Inl OutOfFuel) level_schema False ''Level''
        (Str (js_string ''HIGH''))
     = Inr [0xAC, 0x02]"
    unfolding e4[symmetric]
    using enum_case ce en lk by simp
  show ?thesis using c1 c2 c3 c4 by simp
qed

section \<open>Fixed-width numbers\<close>

lemma length_le_bytes: "length (le_bytes k n) = k"
  by (induction k arbitrary: n) auto

lemma le_nat_le_bytes: "le_nat (le_bytes k n) = n mod 256 ^ k"
proof (induction k arbitrary: n)
  case 0
  then show ?case by simp
next
  case (Suc k)
  have "unat (of_nat (n mod 256) :: byte) = n mod 256"
    by (rule unat_byte_of_nat) simp
  then show ?case
    by (simp add: Suc.IH mod_mult2_eq)
qed

lemma le_bytes_word32: "word_of_nat (le_nat (le_bytes 4 (unat (w :: 32 word)))) = w"
proof -
  have "unat w < 256 ^ 4" using unsigned_less[of w] by simp
  then show ?thesis by (simp add: le_nat_le_bytes)
qed

lemma le_bytes_word64: "word_of_nat (le_nat (le_bytes 8 (unat (w :: 64 word)))) = w"
proof -
  have "unat w < 256 ^ 8" using unsigned_less[of w] by simp
  then show ?thesis by (simp add: le_nat_le_bytes)
qed

section \<open>Zigzag\<close>

lemma neg_and_one: "- (z AND 1) = (if odd z then - 1 else 0)" for z :: "'a::len word"
  by (simp add: and_one_eq mod_2_eq_odd)

lemma bit_push1:
  "bit (push_bit 1 n :: 'a::len word) j \<longleftrightarrow> 0 < j \<and> j < LENGTH('a) \<and> bit n (j - 1)"
  by (subst bit_push_bit_iff) (auto simp: possible_bit_word)

lemma bit_zigZagEncode32:
  "bit (zigZagEncode32 n) j \<longleftrightarrow>
     j < 32 \<and> ((0 < j \<and> bit n (j - 1)) \<noteq> bit n 31)"
  unfolding zigZagEncode32_def
  by (simp only: bit_xor_iff bit_push1 bit_signed_drop_bit_iff)
     (cases "j = 0"; auto dest: bit_imp_le_length)

lemma zigzag32: "zigZagDecode32 (zigZagEncode32 n) = n"
proof (rule bit_word_eqI)
  fix i assume "i < LENGTH(32)"
  then have i: "i < 32" by simp
  have o: "odd (zigZagEncode32 n) = bit n 31"
    using bit_zigZagEncode32[of n 0] by (simp add: bit_0)
  show "bit (zigZagDecode32 (zigZagEncode32 n)) i = bit n i"
    unfolding zigZagDecode32_def neg_and_one o
    using i
    by (cases "i = 31") (auto simp: bit_xor_iff bit_drop_bit_eq bit_zigZagEncode32)
qed

lemma bit_zigZagEncode64:
  "bit (zigZagEncode64 n) j \<longleftrightarrow>
     j < 64 \<and> ((0 < j \<and> bit n (j - 1)) \<noteq> bit n 63)"
  unfolding zigZagEncode64_def
  by (simp only: bit_xor_iff bit_push1 bit_signed_drop_bit_iff)
     (cases "j = 0"; auto dest: bit_imp_le_length)

lemma zigzag64: "zigZagDecode64 (zigZagEncode64 n) = n"
proof (rule bit_word_eqI)
  fix i assume "i < LENGTH(64)"
  then have i: "i < 64" by simp
  have o: "odd (zigZagEncode64 n) = bit n 63"
    using bit_zigZagEncode64[of n 0] by (simp add: bit_0)
  show "bit (zigZagDecode64 (zigZagEncode64 n)) i = bit n i"
    unfolding zigZagDecode64_def neg_and_one o
    using i
    by (cases "i = 63") (auto simp: bit_xor_iff bit_drop_bit_eq bit_zigZagEncode64)
qed

section \<open>Numbers and words\<close>

lemma uint_word32_of_int:
  assumes "0 \<le> k" "k < 2 ^ 32"
  shows "uint (word_of_int k :: 32 word) = k"
  using assms by (simp add: word_of_int_inverse)

lemma low_word_of_sign_extension:
  "(word_of_nat (unat (word_of_int k :: 64 word)) :: 32 word) = word_of_int k"
proof -
  have "(ucast (word_of_int k :: 64 word) :: 32 word) = word_of_int k"
    by (rule bit_word_eqI) (simp add: bit_simps)
  then show ?thesis by simp
qed

lemma int32_round: 
  "- (2 ^ 31) \<le> n \<Longrightarrow> n < 2 ^ 31
   \<Longrightarrow> sint (word_of_nat (unat (word_of_int (sint (word_of_int n :: 32 word)) :: 64 word))
            :: 32 word) = n"
proof -
  assume n: "- (2 ^ 31) \<le> n" "n < 2 ^ 31"
  have s: "sint (word_of_int n :: 32 word) = n" using n by (rule sint_word32_of_int)
  show ?thesis
    by (simp only: low_word_of_sign_extension s)
qed

section \<open>UTF-8\<close>

lemma split_base64_3:
  "(c::nat) div 4096 * 4096 + c div 64 mod 64 * 64 + c mod 64 = c"
proof -
  have a: "c = 64 * (c div 64) + c mod 64" by simp
  have b: "c div 64 = 64 * (c div 64 div 64) + c div 64 mod 64" by simp
  have d: "c div 4096 = c div 64 div 64" by (simp add: div_mult2_eq[symmetric])
  show ?thesis unfolding d using a b by linarith
qed

lemma split_base64_4:
  "(c::nat) div 262144 * 262144 + c div 4096 mod 64 * 4096 + c div 64 mod 64 * 64 + c mod 64 = c"
proof -
  have a: "c = 64 * (c div 64) + c mod 64" by simp
  have b: "c div 64 = 64 * (c div 64 div 64) + c div 64 mod 64" by simp
  have e: "c div 64 div 64 = 64 * (c div 64 div 64 div 64) + c div 64 div 64 mod 64" by simp
  have d: "c div 4096 = c div 64 div 64" by (simp add: div_mult2_eq[symmetric])
  have f: "c div 262144 = c div 64 div 64 div 64" by (simp add: div_mult2_eq[symmetric])
  show ?thesis unfolding d f using a b e by linarith
qed

lemma utf8_decode_char:
  assumes "utf8_char c = Some bs" and ns: "\<not> surrogate c"
  shows "utf8_decode (bs @ rest) = map_option ((#) c) (utf8_decode rest)"
proof -
  have "c < 0x110000"
    using assms(1) by (simp add: utf8_char_def surrogate_def split: if_splits)
  then consider "c < 0x80" | "0x80 \<le> c" "c < 0x800" | "0x800 \<le> c" "c < 0x10000"
    | "0x10000 \<le> c" "c < 0x110000"
    by linarith
  then show ?thesis
  proof cases
    case 1
    then have "unat (of_nat c :: byte) = c" by (simp add: unat_byte_of_nat)
    then show ?thesis using assms 1 by (auto simp: utf8_char_def)
  next
    case 2
    define a :: byte where "a = of_nat (0xC0 + c div 64)"
    define b :: byte where "b = of_nat (0x80 + c mod 64)"
    have ua: "unat a = 0xC0 + c div 64" unfolding a_def using 2 by (intro unat_byte_of_nat) simp
    have ub: "unat b = 0x80 + c mod 64" unfolding b_def by (intro unat_byte_of_nat) simp
    have bs: "bs = [a, b]" using assms 2 by (simp add: utf8_char_def a_def b_def)
    have c: "(unat a - 0xC0) * 64 + (unat b - 0x80) = c" by (simp add: ua ub)
    have q: "c div 64 < 32" "2 \<le> c div 64" using 2 by simp_all
    show ?thesis
      unfolding bs using 2 c q by (simp add: utf8_cont_def ua ub)
  next
    case 3
    define a :: byte where "a = of_nat (0xE0 + c div 4096)"
    define b :: byte where "b = of_nat (0x80 + c div 64 mod 64)"
    define d :: byte where "d = of_nat (0x80 + c mod 64)"
    have ua: "unat a = 0xE0 + c div 4096" unfolding a_def using 3 by (intro unat_byte_of_nat) simp
    have ub: "unat b = 0x80 + c div 64 mod 64" unfolding b_def by (intro unat_byte_of_nat) simp
    have ud: "unat d = 0x80 + c mod 64" unfolding d_def by (intro unat_byte_of_nat) simp
    have bs: "bs = [a, b, d]" using assms 3 by (simp add: utf8_char_def a_def b_def d_def)
    have ns': "\<not> surrogate
        ((unat a - 0xE0) * 4096 + (unat b - 0x80) * 64 + (unat d - 0x80))"
      using ns split_base64_3[of c] by (simp add: ua ub ud)
    have c: "(unat a - 0xE0) * 4096 + (unat b - 0x80) * 64 + (unat d - 0x80) = c"
      using split_base64_3[of c] by (simp add: ua ub ud)
    have q: "c div 4096 < 16" using 3 by simp
    show ?thesis
      unfolding bs using 3 c q ns' by (simp add: utf8_cont_def ua ub ud)
  next
    case 4
    define a :: byte where "a = of_nat (0xF0 + c div 262144)"
    define b :: byte where "b = of_nat (0x80 + c div 4096 mod 64)"
    define d :: byte where "d = of_nat (0x80 + c div 64 mod 64)"
    define e :: byte where "e = of_nat (0x80 + c mod 64)"
    have ua: "unat a = 0xF0 + c div 262144" unfolding a_def using 4 by (intro unat_byte_of_nat) simp
    have ub: "unat b = 0x80 + c div 4096 mod 64" unfolding b_def by (intro unat_byte_of_nat) simp
    have ud: "unat d = 0x80 + c div 64 mod 64" unfolding d_def by (intro unat_byte_of_nat) simp
    have ue: "unat e = 0x80 + c mod 64" unfolding e_def by (intro unat_byte_of_nat) simp
    have bs: "bs = [a, b, d, e]"
      using assms 4 by (simp add: utf8_char_def a_def b_def d_def e_def)
    have c: "(unat a - 0xF0) * 262144 + (unat b - 0x80) * 4096 + (unat d - 0x80) * 64
        + (unat e - 0x80) = c"
      using split_base64_4[of c] by (simp add: ua ub ud ue)
    have q: "c div 262144 < 5" using 4 by simp
    show ?thesis
      unfolding bs using 4 c q by (simp add: utf8_cont_def ua ub ud ue)
  qed
qed

lemma utf8_round:
  "utf8_encode s = Some bs \<Longrightarrow> list_all (\<lambda>c. \<not> surrogate c) s \<Longrightarrow> utf8_decode bs = Some s"
proof (induction s arbitrary: bs)
  case Nil
  then show ?case by simp
next
  case (Cons c s)
  from Cons.prems(1) obtain cb rest where
    cb: "utf8_char c = Some cb" and rest: "utf8_encode s = Some rest" and bs: "bs = cb @ rest"
    by (auto split: option.splits)
  from Cons.prems(2) have ns: "\<not> surrogate c" and all: "list_all (\<lambda>c. \<not> surrogate c) s"
    by simp_all
  show ?case
    unfolding bs by (simp add: utf8_decode_char[OF cb ns] Cons.IH[OF rest all])
qed

section \<open>Reading back what was written\<close>

lemma readVarint32_at:
  assumes "n < 2 ^ 64" "offset b + int (length (varint n)) \<le> limit b"
  shows "readVarint32 (b\<lparr>ahead := varint n @ rest\<rparr>) =
           Inr (word_of_nat n, b\<lparr>offset := offset b + int (length (varint n)), ahead := rest\<rparr>)"
  using readVarint32_varint[of n "b\<lparr>ahead := varint n @ rest\<rparr>" rest] assms by simp

lemma readVarint64_at:
  assumes "n < 2 ^ 64" "offset b + int (length (varint n)) \<le> limit b"
  shows "readVarint64 (b\<lparr>ahead := varint n @ rest\<rparr>) =
           Inr (word_of_nat n, b\<lparr>offset := offset b + int (length (varint n)), ahead := rest\<rparr>)"
  using readVarint64_varint[of n "b\<lparr>ahead := varint n @ rest\<rparr>" rest] assms by simp

lemma unat32_less: "unat (w :: 32 word) < 2 ^ 64"
proof -
  have "unat w < 2 ^ LENGTH(32)" by (rule unsigned_less)
  then show ?thesis by (simp add: order_less_trans)
qed

lemma unat64_less: "unat (w :: 64 word) < 2 ^ 64"
proof -
  have "unat w < 2 ^ LENGTH(64)" by (rule unsigned_less)
  then show ?thesis by simp
qed

lemma readBytes_at:
  "offset b + int (length bs) \<le> limit b
   \<Longrightarrow> readBytes (int (length bs)) (b\<lparr>ahead := bs @ rest\<rparr>) =
         Inr (bs, b\<lparr>offset := offset b + int (length bs), ahead := rest\<rparr>)"
  by (simp add: readBytes_def)

lemma read_fixed_at:
  "offset b + int k \<le> limit b
   \<Longrightarrow> read_fixed k (b\<lparr>ahead := le_bytes k n @ rest\<rparr>) =
         Inr (n mod 256 ^ k, b\<lparr>offset := offset b + int k, ahead := rest\<rparr>)"
  using readBytes_at[of b "le_bytes k n" rest]
  by (simp add: read_fixed_def length_le_bytes le_nat_le_bytes)

lemma unat32_mod: "unat (w :: 32 word) mod 256 ^ 4 = unat w"
proof -
  have "unat w < 2 ^ LENGTH(32)" by (rule unsigned_less)
  then show ?thesis by simp
qed

lemma unat64_mod: "unat (w :: 64 word) mod 256 ^ 8 = unat w"
proof -
  have "unat w < 2 ^ LENGTH(64)" by (rule unsigned_less)
  then show ?thesis by simp
qed

lemma reads_back_bool: "valid_for K_bool v \<Longrightarrow> reads_back K_bool v"
  by (cases v) (auto simp: valid_for_def reads_back_def write_scalar_def read_scalar_def
      readByte_def)

lemma reads_back_varint32:
  assumes w: "\<And>x. write_scalar k x = (case x of Number n \<Rightarrow> Inr (writeVarint32 (enc n)) | _ \<Rightarrow> Inl TypeError)"
    and r: "\<And>b. read_scalar k b = (case readVarint32 b of Inl e \<Rightarrow> Inl e | Inr (w, b') \<Rightarrow> Inr (Number (dec w), b'))"
    and v: "v = Number n" and d: "dec (enc n) = n"
  shows "reads_back k v"
  unfolding reads_back_def
proof (intro exI conjI allI impI)
  show "write_scalar k v = Inr (writeVarint32 (enc n))" by (simp add: w v)
  show "writeVarint32 (enc n) \<noteq> []" by (simp add: writeVarint32_def varint_nonempty)
  fix b :: buffer and rest
  assume "offset b + int (length (writeVarint32 (enc n))) \<le> limit b"
  then show "read_scalar k (b\<lparr>ahead := writeVarint32 (enc n) @ rest\<rparr>) =
      Inr (v, b\<lparr>offset := offset b + int (length (writeVarint32 (enc n))), ahead := rest\<rparr>)"
    unfolding writeVarint32_def
    using readVarint32_at[OF unat32_less, of b "enc n" rest] by (simp add: r v d)
qed

lemma coerceLong_Long: "coerceLong (Long w u) = Inr (Long w u)"
  by (simp add: coerceLong_def)

lemma write_long_Long: "write_long put (Long w u) = Inr (put w)"
  by (simp add: write_long_def coerceLong_Long)

lemma to_int32_Number: "to_int32 (Number n) = Some (word_of_int n)"
  by (simp add: to_int32_def)

lemma reads_back_varint64:
  assumes w: "\<And>u. write_scalar k (Long n u) = Inr (writeVarint64 (enc n))"
    and r: "\<And>b. read_scalar k b = (case readVarint64 b of Inl e \<Rightarrow> Inl e | Inr (w, b') \<Rightarrow> Inr (Long (dec w) flag, b'))"
    and v: "v = Long n flag" and d: "dec (enc n) = n"
  shows "reads_back k v"
  unfolding reads_back_def
proof (intro exI conjI allI impI)
  show "write_scalar k v = Inr (writeVarint64 (enc n))" by (simp add: w v)
  show "writeVarint64 (enc n) \<noteq> []" by (simp add: writeVarint64_def varint_nonempty)
  fix b :: buffer and rest
  assume "offset b + int (length (writeVarint64 (enc n))) \<le> limit b"
  then show "read_scalar k (b\<lparr>ahead := writeVarint64 (enc n) @ rest\<rparr>) =
      Inr (v, b\<lparr>offset := offset b + int (length (writeVarint64 (enc n))), ahead := rest\<rparr>)"
    unfolding writeVarint64_def
    using readVarint64_at[OF unat64_less, of b "enc n" rest] by (simp add: r v d)
qed

lemma reads_back_uint32: "valid_for K_uint32 v \<Longrightarrow> reads_back K_uint32 v"
proof -
  assume a: "valid_for K_uint32 v"
  then obtain n where v: "v = Number n" and n: "0 \<le> n" "n < 2 ^ 32"
    by (cases v) (auto simp: valid_for_def)
  show ?thesis
    by (rule reads_back_varint32[where enc = word_of_int and dec = uint and n = n])
       (simp_all add: write_scalar_def read_scalar_def v uint_word32_of_int[OF n])
qed

lemma reads_back_sint32: "valid_for K_sint32 v \<Longrightarrow> reads_back K_sint32 v"
proof -
  assume a: "valid_for K_sint32 v"
  then obtain n where v: "v = Number n" and n: "- (2 ^ 31) \<le> n" "n < 2 ^ 31"
    by (cases v) (auto simp: valid_for_def)
  show ?thesis
    by (rule reads_back_varint32[where enc = "\<lambda>n. zigZagEncode32 (word_of_int n)"
          and dec = "\<lambda>w. sint (zigZagDecode32 w)" and n = n])
       (simp_all add: write_scalar_def read_scalar_def v zigzag32 sint_word32_of_int[OF n])
qed

lemma reads_back_int64: "valid_for K_int64 v \<Longrightarrow> reads_back K_int64 v"
proof -
  assume a: "valid_for K_int64 v"
  then obtain n where v: "v = Long n False"
    by (cases v) (auto simp: valid_for_def)
  show ?thesis
    by (rule reads_back_varint64[where enc = "\<lambda>n. n" and dec = "\<lambda>n. n" and n = n and flag = False])
       (simp_all add: write_scalar_def read_scalar_def v write_long_Long)
qed

lemma reads_back_uint64: "valid_for K_uint64 v \<Longrightarrow> reads_back K_uint64 v"
proof -
  assume a: "valid_for K_uint64 v"
  then obtain n where v: "v = Long n True"
    by (cases v) (auto simp: valid_for_def)
  show ?thesis
    by (rule reads_back_varint64[where enc = "\<lambda>n. n" and dec = "\<lambda>n. n" and n = n and flag = True])
       (simp_all add: write_scalar_def read_scalar_def v write_long_Long)
qed

lemma reads_back_sint64: "valid_for K_sint64 v \<Longrightarrow> reads_back K_sint64 v"
proof -
  assume a: "valid_for K_sint64 v"
  then obtain n where v: "v = Long n False"
    by (cases v) (auto simp: valid_for_def)
  show ?thesis
    by (rule reads_back_varint64[where enc = zigZagEncode64 and dec = zigZagDecode64
          and n = n and flag = False])
       (simp_all add: write_scalar_def read_scalar_def v zigzag64 write_long_Long)
qed

lemma reads_back_int32: "valid_for K_int32 v \<Longrightarrow> reads_back K_int32 v"
proof -
  assume a: "valid_for K_int32 v"
  then obtain n where v: "v = Number n" and n: "- (2 ^ 31) \<le> n" "n < 2 ^ 31"
    by (cases v) (auto simp: valid_for_def)
  define w :: "64 word" where "w = word_of_int (sint (word_of_int n :: 32 word))"
  have rt: "sint (word_of_nat (unat w) :: 32 word) = n"
    unfolding w_def by (rule int32_round[OF n])
  show ?thesis
    unfolding reads_back_def
  proof (intro exI conjI allI impI)
    show "write_scalar K_int32 v = Inr (writeVarint64 w)"
      by (simp add: write_scalar_def v w_def to_int32_Number)
    show "writeVarint64 w \<noteq> []" by (simp add: writeVarint64_def varint_nonempty)
    fix b :: buffer and rest
    assume "offset b + int (length (writeVarint64 w)) \<le> limit b"
    then show "read_scalar K_int32 (b\<lparr>ahead := writeVarint64 w @ rest\<rparr>) =
        Inr (v, b\<lparr>offset := offset b + int (length (writeVarint64 w)), ahead := rest\<rparr>)"
      unfolding writeVarint64_def
      using readVarint32_at[OF unat64_less, of b w rest] rt
      by (simp add: read_scalar_def v del: of_nat_unat)
  qed
qed

lemma unat32_num: "unat (w :: 32 word) mod 4294967296 = unat w"
  using unat32_mod[of w] by simp

lemma unat64_num: "unat (w :: 64 word) mod 18446744073709551616 = unat w"
  using unat64_mod[of w] by simp

lemma reads_back_fixed:
  assumes w: "write_scalar k v = Inr (le_bytes m n)"
    and r: "\<And>b. read_scalar k b = (case read_fixed m b of Inl e \<Rightarrow> Inl e | Inr (x, b') \<Rightarrow> Inr (dec x, b'))"
    and d: "dec (n mod 256 ^ m) = v" and m: "0 < m"
  shows "reads_back k v"
  unfolding reads_back_def
proof (intro exI conjI allI impI)
  show "write_scalar k v = Inr (le_bytes m n)" by (rule w)
  show "le_bytes m n \<noteq> []" using m length_le_bytes[of m n] by auto
  fix b :: buffer and rest
  assume "offset b + int (length (le_bytes m n)) \<le> limit b"
  then show "read_scalar k (b\<lparr>ahead := le_bytes m n @ rest\<rparr>) =
      Inr (v, b\<lparr>offset := offset b + int (length (le_bytes m n)), ahead := rest\<rparr>)"
    using read_fixed_at[of b m n rest] by (simp add: r d length_le_bytes)
qed

lemma reads_back_fixed32: "valid_for K_fixed32 v \<Longrightarrow> reads_back K_fixed32 v"
proof -
  assume a: "valid_for K_fixed32 v"
  then obtain n where v: "v = Number n" and n: "0 \<le> n" "n < 2 ^ 32"
    by (cases v) (auto simp: valid_for_def)
  show ?thesis
    by (rule reads_back_fixed[where m = 4 and n = "unat (word_of_int n :: 32 word)"
          and dec = "\<lambda>x. Number (uint (word_of_nat x :: 32 word))"])
       (simp_all add: write_scalar_def read_scalar_def v unat32_num uint_word32_of_int[OF n])
qed

lemma reads_back_sfixed32: "valid_for K_sfixed32 v \<Longrightarrow> reads_back K_sfixed32 v"
proof -
  assume a: "valid_for K_sfixed32 v"
  then obtain n where v: "v = Number n" and n: "- (2 ^ 31) \<le> n" "n < 2 ^ 31"
    by (cases v) (auto simp: valid_for_def)
  show ?thesis
    by (rule reads_back_fixed[where m = 4 and n = "unat (word_of_int n :: 32 word)"
          and dec = "\<lambda>x. Number (sint (word_of_nat x :: 32 word))"])
       (simp_all add: write_scalar_def read_scalar_def v unat32_num sint_word32_of_int[OF n])
qed

lemma reads_back_float: "valid_for K_float v \<Longrightarrow> reads_back K_float v"
proof -
  assume a: "valid_for K_float v"
  then obtain w where v: "v = Float32 w"
    by (cases v) (auto simp: valid_for_def)
  show ?thesis
    by (rule reads_back_fixed[where m = 4 and n = "unat w"
          and dec = "\<lambda>x. Float32 (word_of_nat x)"])
       (simp_all add: write_scalar_def read_scalar_def v unat32_num)
qed

lemma reads_back_double: "valid_for K_double v \<Longrightarrow> reads_back K_double v"
proof -
  assume a: "valid_for K_double v"
  then obtain w where v: "v = Double w"
    by (cases v) (auto simp: valid_for_def)
  show ?thesis
    by (rule reads_back_fixed[where m = 8 and n = "unat w"
          and dec = "\<lambda>x. Double (word_of_nat x)"])
       (simp_all add: write_scalar_def read_scalar_def v unat64_num write_long_Long)
qed

lemma reads_back_fixed64: "valid_for K_fixed64 v \<Longrightarrow> reads_back K_fixed64 v"
proof -
  assume a: "valid_for K_fixed64 v"
  then obtain w where v: "v = Long w True"
    by (cases v) (auto simp: valid_for_def)
  show ?thesis
    by (rule reads_back_fixed[where m = 8 and n = "unat w"
          and dec = "\<lambda>x. Long (word_of_nat x) True"])
       (simp_all add: write_scalar_def read_scalar_def v unat64_num write_long_Long)
qed

lemma reads_back_sfixed64: "valid_for K_sfixed64 v \<Longrightarrow> reads_back K_sfixed64 v"
proof -
  assume a: "valid_for K_sfixed64 v"
  then obtain w where v: "v = Long w False"
    by (cases v) (auto simp: valid_for_def)
  show ?thesis
    by (rule reads_back_fixed[where m = 8 and n = "unat w"
          and dec = "\<lambda>x. Long (word_of_nat x) False"])
       (simp_all add: write_scalar_def read_scalar_def v unat64_num write_long_Long)
qed

text \<open>A length prefix and the bytes it counts.\<close>

lemma read_length_delimited:
  assumes len: "length bs < 2 ^ 31"
    and lim: "offset b + int (length (writeVarint32 (word_of_nat (length bs)) @ bs)) \<le> limit b"
  shows "readVarint32 (b\<lparr>ahead := (writeVarint32 (word_of_nat (length bs)) @ bs) @ rest\<rparr>)
         = Inr (word_of_nat (length bs),
                b\<lparr>offset := offset b + int (length (writeVarint32 (word_of_nat (length bs)))),
                  ahead := bs @ rest\<rparr>)"
    and "readBytes (sint (word_of_nat (length bs) :: 32 word))
           (b\<lparr>offset := offset b + int (length (writeVarint32 (word_of_nat (length bs)))),
              ahead := bs @ rest\<rparr>)
         = Inr (bs, b\<lparr>offset := offset b
                   + int (length (writeVarint32 (word_of_nat (length bs)) @ bs)),
                 ahead := rest\<rparr>)"
proof -
  have u: "unat (word_of_nat (length bs) :: 32 word) = length bs"
    using len by (simp add: unat_of_nat)
  have l64: "length bs < 2 ^ 64" using len by (simp add: order_less_trans)
  let ?p = "varint (length bs)"
  have rd: "readVarint32 (b\<lparr>ahead := ?p @ bs @ rest\<rparr>) =
      Inr (word_of_nat (length bs), b\<lparr>offset := offset b + int (length ?p), ahead := bs @ rest\<rparr>)"
    using lim by (intro readVarint32_at[OF l64]) (simp add: writeVarint32_def u)
  then show "readVarint32 (b\<lparr>ahead := (writeVarint32 (word_of_nat (length bs)) @ bs) @ rest\<rparr>)
         = Inr (word_of_nat (length bs),
                b\<lparr>offset := offset b + int (length (writeVarint32 (word_of_nat (length bs)))),
                  ahead := bs @ rest\<rparr>)"
    by (simp add: writeVarint32_def u)
  show "readBytes (sint (word_of_nat (length bs) :: 32 word))
           (b\<lparr>offset := offset b + int (length (writeVarint32 (word_of_nat (length bs)))),
              ahead := bs @ rest\<rparr>)
         = Inr (bs, b\<lparr>offset := offset b
                   + int (length (writeVarint32 (word_of_nat (length bs)) @ bs)),
                 ahead := rest\<rparr>)"
    using lim by (simp add: readBytes_def writeVarint32_def u sint_length_31[OF len] add.assoc)
qed

lemma reads_back_bytes: "valid_for K_bytes v \<Longrightarrow> reads_back K_bytes v"
proof -
  assume a: "valid_for K_bytes v"
  then obtain bs where v: "v = Bytes bs" and len: "length bs < 2 ^ 31"
    by (cases v) (auto simp: valid_for_def)
  let ?out = "writeVarint32 (word_of_nat (length bs)) @ bs"
  show ?thesis
    unfolding reads_back_def
  proof (intro exI conjI allI impI)
    show "write_scalar K_bytes v = Inr ?out" by (simp add: write_scalar_def v)
    show "?out \<noteq> []" by (simp add: writeVarint32_def varint_nonempty)
    fix b :: buffer and rest
    assume lim: "offset b + int (length ?out) \<le> limit b"
    show "read_scalar K_bytes (b\<lparr>ahead := ?out @ rest\<rparr>) =
        Inr (v, b\<lparr>offset := offset b + int (length ?out), ahead := rest\<rparr>)"
      using read_length_delimited[OF len lim, of rest]
      by (simp add: read_scalar_def v)
  qed
qed

lemma reads_back_string: "valid_for K_string v \<Longrightarrow> reads_back K_string v"
proof -
  assume a: "valid_for K_string v"
  then obtain s bs where v: "v = Str s" and enc: "utf8_encode s = Some bs"
    and len: "length bs < 2 ^ 31" and ns: "list_all (\<lambda>c. \<not> surrogate c) s"
    by (cases v) (auto simp: valid_for_def split: option.splits)
  let ?out = "writeVarint32 (word_of_nat (length bs)) @ bs"
  show ?thesis
    unfolding reads_back_def
  proof (intro exI conjI allI impI)
    show "write_scalar K_string v = Inr ?out" by (simp add: write_scalar_def v enc)
    show "?out \<noteq> []" by (simp add: writeVarint32_def varint_nonempty)
    fix b :: buffer and rest
    assume lim: "offset b + int (length ?out) \<le> limit b"
    show "read_scalar K_string (b\<lparr>ahead := ?out @ rest\<rparr>) =
        Inr (v, b\<lparr>offset := offset b + int (length ?out), ahead := rest\<rparr>)"
      using read_length_delimited[OF len lim, of rest] utf8_round[OF enc ns]
      by (simp add: read_scalar_def v)
  qed
qed

lemma valid_reads_back:
  "valid_for k v \<Longrightarrow> reads_back k v"
  by (cases k)
     (simp_all add: reads_back_bool reads_back_bytes reads_back_double reads_back_fixed32
        reads_back_fixed64 reads_back_float reads_back_int32 reads_back_int64
        reads_back_sfixed32 reads_back_sfixed64 reads_back_sint32 reads_back_sint64
        reads_back_uint32 reads_back_uint64 reads_back_string,
      simp_all add: valid_for_def)

section \<open>Round trip of a scalar field\<close>

lemma valid_for_scalar_kind:
  "valid_for k v \<Longrightarrow> k \<noteq> K_enum \<and> k \<noteq> K_message \<and> v \<noteq> Undefined"
  by (cases k; cases v) (simp_all add: valid_for_def)

lemma kind_wire_type_less: "kind_wire_type k < 8"
  by (cases k) (simp_all add: TYPE_VAR_INT_def TYPE_SIZE_N_def TYPE_SIZE_4_def TYPE_SIZE_8_def)

lemma decode_loop_done:
  "remaining b \<le> 0 \<Longrightarrow> decode_loop n dec sch es6 def b message = Inr (message, b)"
  by (cases n) simp_all

lemma encode_message_body:
  "\<exists>enc. encode_message n sch es6 = encode_body enc sch es6"
  by (cases n) auto

lemma decode_message_body:
  "\<exists>dec. decode_message n sch es6 = decode_body dec sch es6"
  by (cases n) auto

lemma collect_append:
  "collect (xs @ ys) =
     (case collect xs of
        Inl e \<Rightarrow> Inl e
      | Inr a \<Rightarrow> (case collect ys of Inl e \<Rightarrow> Inl e | Inr b \<Rightarrow> Inr (a @ b)))"
  by (induction xs rule: collect.induct) (auto split: sum.splits)

lemma collect_empty_chunks:
  "\<forall>g \<in> set gs. h g = Inr [] \<Longrightarrow> collect (map h gs) = Inr (replicate (length gs) [])"
  by (induction gs) auto

lemma concat_replicate_nil: "concat (replicate n []) = []"
  by (induction n) auto

lemma js_get_other:
  "name \<noteq> key \<Longrightarrow> name \<notin> set object_prototype_keys \<Longrightarrow> js_get [(key, v)] name = Undefined"
  by (simp add: js_get_def)

lemma encode_field_absent:
  "js_get message (f_name g) = Undefined \<Longrightarrow> encode_field enc sch es6 g message = Inr []"
  by (simp add: encode_field_def)

lemma encode_single_scalar:
  assumes fields: "m_fields def = before @ field # after"
    and others: "\<forall>g \<in> set (before @ after).
        f_name g \<noteq> f_name field \<and> f_name g \<notin> set object_prototype_keys"
    and nr: "\<not> f_repeated field"
    and k: "kind_of sch (f_type field) \<noteq> K_enum" "kind_of sch (f_type field) \<noteq> K_message"
    and v: "v \<noteq> Undefined"
    and w: "write_scalar (kind_of sch (f_type field)) v = Inr bs"
  shows "encode_body enc sch es6 def (Object [(f_name field, v)]) =
         Inr (writeVarint32 (tag_word (f_tag field) (wire_type sch (f_type field))) @ bs)"
proof -
  let ?m = "[(f_name field, v)]"
  let ?h = "\<lambda>g. encode_field enc sch es6 g ?m"
  let ?out = "writeVarint32 (tag_word (f_tag field) (wire_type sch (f_type field))) @ bs"
  have o: "?h g = Inr []" if "g \<in> set (before @ after)" for g
  proof -
    from others that have "f_name g \<noteq> f_name field" "f_name g \<notin> set object_prototype_keys"
      by blast+
    then have "js_get ?m (f_name g) = Undefined" by (rule js_get_other)
    then show ?thesis by (rule encode_field_absent)
  qed
  have f: "?h field = Inr ?out"
    using nr k v w by (simp add: encode_field_def write_value_def js_get_def)
  have b: "collect (map ?h before) = Inr (replicate (length before) [])"
    by (rule collect_empty_chunks) (use o in auto)
  have a: "collect (map ?h after) = Inr (replicate (length after) [])"
    by (rule collect_empty_chunks) (use o in auto)
  have "collect (map ?h (m_fields def)) =
      Inr (replicate (length before) [] @ ?out # replicate (length after) [])"
    unfolding fields by (simp add: collect_append b a f)
  then show ?thesis
    by (simp add: encode_body_def fields concat_replicate_nil)
qed

lemma decode_single_scalar:
  assumes fields: "m_fields def = before @ field # after"
    and others: "\<forall>g \<in> set (before @ after). f_tag g \<noteq> f_tag field \<and> \<not> f_required g"
    and nm: "f_name field \<noteq> ''__proto__''"
    and nr: "\<not> f_repeated field"
    and k: "kind_of sch (f_type field) \<noteq> K_enum" "kind_of sch (f_type field) \<noteq> K_message"
    and v: "v \<noteq> Undefined"
    and tag: "0 < f_tag field" "f_tag field < 2 ^ 29"
    and bs: "bs \<noteq> []"
    and rd: "\<And>b rest. offset b + int (length bs) \<le> limit b \<Longrightarrow>
           read_scalar (kind_of sch (f_type field)) (b\<lparr>ahead := bs @ rest\<rparr>) =
             Inr (v, b\<lparr>offset := offset b + int (length bs), ahead := rest\<rparr>)"
    and bytes: "bytes = writeVarint32 (tag_word (f_tag field) (wire_type sch (f_type field))) @ bs"
  shows "decode_body dec sch es6 def
           \<lparr>offset = 0, limit = int (length bytes), ahead = bytes\<rparr> =
         Inr (Object [(f_name field, v)],
              \<lparr>offset = int (length bytes), limit = int (length bytes), ahead = []\<rparr>)"
proof -
  let ?wt = "wire_type sch (f_type field)"
  let ?tw = "tag_word (f_tag field) ?wt"
  let ?T = "varint (unat ?tw)"
  let ?B0 = "\<lparr>offset = 0, limit = int (length bytes), ahead = bytes\<rparr>"
  let ?B1 = "\<lparr>offset = int (length ?T), limit = int (length bytes), ahead = bs\<rparr>"
  let ?B2 = "\<lparr>offset = int (length bytes), limit = int (length bytes), ahead = []\<rparr>"
  have wt: "?wt < 8" by (simp add: wire_type_def kind_wire_type_less)
  have by_def: "bytes = ?T @ bs" using bytes by (simp add: writeVarint32_def)
  have len: "length bytes = length ?T + length bs" by (simp add: by_def)
  have "length bytes \<noteq> 0" using bs by (simp add: by_def)
  then obtain m where m: "length bytes = Suc m"
    using not0_implies_Suc by blast
  have rem: "remaining ?B0 > 0" by (simp add: remaining_def m)
  have r1: "readVarint32 ?B0 = Inr (?tw, ?B1)"
    using readVarint32_varint[of "unat ?tw" ?B0 bs] unat32_less[of ?tw]
    by (simp add: by_def)
  have nz: "drop_bit 3 ?tw \<noteq> 0" using tag wt by (intro tag_word_nonzero)
  have num: "uint (drop_bit 3 ?tw) = f_tag field"
    using tag wt by (intro tag_word_number) simp_all
  have fnd: "find (\<lambda>g. f_tag g = f_tag field) (m_fields def) = Some field"
    using fields others by (intro find_first[where pre = before and post = after]) auto
  have rs: "read_scalar (kind_of sch (f_type field)) ?B1 = Inr (v, ?B2)"
    using rd[of ?B1 "[]"] by (simp add: len)
  have rf: "read_field dec sch es6 field ?tw ?B1 [] = Inr ([(f_name field, v)], ?B2)"
    using nr k nm by (simp add: read_field_def read_value_def rs js_set_def)
  have loop: "decode_loop (Suc (length bytes)) dec sch es6 def ?B0 [] =
      Inr ([(f_name field, v)], ?B2)"
    using rem nz
    by (simp add: r1 num fnd rf decode_loop_done remaining_def)
  have "\<forall>g \<in> set (m_fields def).
      \<not> (f_required g \<and> js_get [(f_name field, v)] (f_name g) = Undefined)"
    using others v by (auto simp: fields js_get_def)
  then have "find (\<lambda>g. f_required g \<and> js_get [(f_name field, v)] (f_name g) = Undefined)
      (m_fields def) = None"
    by (rule find_none)
  then have req: "missing_required def [(f_name field, v)] = None"
    by (simp add: missing_required_def)
  show ?thesis
    by (simp add: decode_body_def loop req del: decode_loop.simps)
qed

text \<open>
  Claim C1, as the claim states it, fails: it speaks of every message definition. In a
  message with the optional field \<open>f\<close> and the required field \<open>g\<close> the value \<open>{f: 7}\<close>
  is encoded, and decoding its bytes raises the error of the missing field \<open>g\<close>. In a
  message whose field is named \<open>__proto__\<close> the value that holds 7 under this name is
  encoded to the same bytes, and the decoder's assignment \<open>message["__proto__"] = 7\<close>
  stores nothing: the decoded message is empty.
\<close>

theorem round_trip_lost_beside_required_field:
  "encodeMessage skip_schema False pair_def_M (Object [(''f'', Number 7)]) = Inr [0x08, 0x07]
   \<and> decodeMessage skip_schema False pair_def_M [0x08, 0x07] = Inl (MissingRequired ''g'')
   \<and> encodeMessage skip_schema False proto_field_def_M (Object [(''__proto__'', Number 7)])
       = Inr [0x08, 0x07]
   \<and> decodeMessage skip_schema False proto_field_def_M [0x08, 0x07] = Inr (Object [])"
  by code_simp

text \<open>
  Claim C1, amended. Let \<open>f\<close> be a singular field of a scalar type, with a field number
  from 1 to \<open>2^29 - 1\<close> and a name other than \<open>__proto__\<close>, in a message definition whose
  other fields are not required, have other field numbers, and have other names that a
  plain object does not inherit. For every value \<open>v\<close> valid for the type, encoding the
  message value \<open>{f: v}\<close> succeeds and decoding the bytes yields \<open>{f: v}\<close>.
\<close>

theorem scalar_round_trip:
  assumes "m_fields def = before @ field # after"
    and "\<forall>g \<in> set (before @ after).
           f_name g \<noteq> f_name field \<and> f_name g \<notin> set object_prototype_keys
           \<and> f_tag g \<noteq> f_tag field \<and> \<not> f_required g"
    and "f_type field \<in> set scalar_types"
    and "\<not> f_repeated field"
    and "f_name field \<noteq> ''__proto__''"
    and "0 < f_tag field" and "f_tag field < 2 ^ 29"
    and "valid_for (kind_of sch (f_type field)) v"
  shows "\<exists>bytes.
           encodeMessage sch es6 def (Object [(f_name field, v)]) = Inr bytes
         \<and> decodeMessage sch es6 def bytes = Inr (Object [(f_name field, v)])"
proof -
  let ?k = "kind_of sch (f_type field)"
  from valid_for_scalar_kind[OF assms(8)]
  have k: "?k \<noteq> K_enum" "?k \<noteq> K_message" and v: "v \<noteq> Undefined" by simp_all
  from valid_reads_back[OF assms(8)] obtain bs where
    w: "write_scalar ?k v = Inr bs" and ne: "bs \<noteq> []"
    and rd: "\<And>b rest. offset b + int (length bs) \<le> limit b \<Longrightarrow>
           read_scalar ?k (b\<lparr>ahead := bs @ rest\<rparr>) =
             Inr (v, b\<lparr>offset := offset b + int (length bs), ahead := rest\<rparr>)"
    unfolding reads_back_def by blast
  have o1: "\<forall>g \<in> set (before @ after).
      f_name g \<noteq> f_name field \<and> f_name g \<notin> set object_prototype_keys"
    using assms(2) by blast
  have o2: "\<forall>g \<in> set (before @ after). f_tag g \<noteq> f_tag field \<and> \<not> f_required g"
    using assms(2) by blast
  define bytes where
    "bytes = writeVarint32 (tag_word (f_tag field) (wire_type sch (f_type field))) @ bs"
  obtain enc where enc: "encode_message (size (Object [(f_name field, v)])) sch es6
      = encode_body enc sch es6"
    using encode_message_body by blast
  have e: "encodeMessage sch es6 def (Object [(f_name field, v)]) = Inr bytes"
    unfolding encodeMessage_def enc bytes_def
    by (rule encode_single_scalar[OF assms(1) o1 assms(4) k v w])
  obtain dec where dec: "decode_message (length bytes) sch es6 = decode_body dec sch es6"
    using decode_message_body by blast
  have d: "decodeMessage sch es6 def bytes = Inr (Object [(f_name field, v)])"
    unfolding decodeMessage_def dec
    by (simp add: decode_single_scalar[OF assms(1) o2 assms(5,4) k v assms(6,7) ne rd bytes_def])
  show ?thesis using e d by blast
qed

theorem scalar_round_trip_witness:
  "(\<exists>bytes.
      encodeMessage skip_schema False
        \<lparr>m_name = ''M'', m_fields = [field_g, \<lparr>f_name = ''toString'', f_type = ''int32'',
           f_tag = 1, f_required = True, f_repeated = False, f_packed = None\<rparr>, field_h]\<rparr>
        (Object [(''toString'', Number (- 1))]) = Inr bytes
      \<and> decodeMessage skip_schema False
        \<lparr>m_name = ''M'', m_fields = [field_g, \<lparr>f_name = ''toString'', f_type = ''int32'',
           f_tag = 1, f_required = True, f_repeated = False, f_packed = None\<rparr>, field_h]\<rparr>
        bytes = Inr (Object [(''toString'', Number (- 1))]))
   \<and> (\<exists>bytes.
      encodeMessage skip_schema False
        \<lparr>m_name = ''M'', m_fields = [field_g, \<lparr>f_name = ''f'', f_type = ''sint32'',
           f_tag = 536870911, f_required = False, f_repeated = False, f_packed = None\<rparr>,
           field_h]\<rparr>
        (Object [(''f'', Number (- 2147483648))]) = Inr bytes
      \<and> decodeMessage skip_schema False
        \<lparr>m_name = ''M'', m_fields = [field_g, \<lparr>f_name = ''f'', f_type = ''sint32'',
           f_tag = 536870911, f_required = False, f_repeated = False, f_packed = None\<rparr>,
           field_h]\<rparr>
        bytes = Inr (Object [(''f'', Number (- 2147483648))]))
   \<and> (\<exists>bytes.
      encodeMessage skip_schema False
        \<lparr>m_name = ''M'', m_fields = [\<lparr>f_name = ''f'', f_type = ''uint64'', f_tag = 2,
           f_required = False, f_repeated = False, f_packed = None\<rparr>]\<rparr>
        (Object [(''f'', Long 0xFFFFFFFFFFFFFFFF True)]) = Inr bytes
      \<and> decodeMessage skip_schema False
        \<lparr>m_name = ''M'', m_fields = [\<lparr>f_name = ''f'', f_type = ''uint64'', f_tag = 2,
           f_required = False, f_repeated = False, f_packed = None\<rparr>]\<rparr>
        bytes = Inr (Object [(''f'', Long 0xFFFFFFFFFFFFFFFF True)]))
   \<and> (\<exists>bytes.
      encodeMessage skip_schema False
        \<lparr>m_name = ''M'', m_fields = [field_g, \<lparr>f_name = ''f'', f_type = ''string'',
           f_tag = 2, f_required = False, f_repeated = False, f_packed = None\<rparr>, field_h]\<rparr>
        (Object [(''f'', Str [0x6F, 0x20AC, 0x1F600])]) = Inr bytes
      \<and> decodeMessage skip_schema False
        \<lparr>m_name = ''M'', m_fields = [field_g, \<lparr>f_name = ''f'', f_type = ''string'',
           f_tag = 2, f_required = False, f_repeated = False, f_packed = None\<rparr>, field_h]\<rparr>
        bytes = Inr (Object [(''f'', Str [0x6F, 0x20AC, 0x1F600])]))"
proof -
  have v1: "valid_for (kind_of skip_schema ''int32'') (Number (- 1))"
    by (simp add: kind_of_def valid_for_def)
  have v2: "valid_for (kind_of skip_schema ''sint32'') (Number (- 2147483648))"
    by (simp add: kind_of_def valid_for_def)
  have v3: "valid_for (kind_of skip_schema ''uint64'') (Long 0xFFFFFFFFFFFFFFFF True)"
    by (simp add: kind_of_def valid_for_def)
  have v4: "valid_for (kind_of skip_schema ''string'') (Str [0x6F, 0x20AC, 0x1F600])"
    by (simp add: kind_of_def valid_for_def utf8_char_def surrogate_def)
  show ?thesis
    using
      scalar_round_trip[where field = "\<lparr>f_name = ''toString'', f_type = ''int32'', f_tag = 1,
           f_required = True, f_repeated = False, f_packed = None\<rparr>"
        and before = "[field_g]" and after = "[field_h]"
        and def = "\<lparr>m_name = ''M'', m_fields = [field_g, \<lparr>f_name = ''toString'',
           f_type = ''int32'', f_tag = 1, f_required = True, f_repeated = False,
           f_packed = None\<rparr>, field_h]\<rparr>"
        and sch = skip_schema and v = "Number (- 1)"]
      scalar_round_trip[where field = "\<lparr>f_name = ''f'', f_type = ''sint32'',
           f_tag = 536870911, f_required = False, f_repeated = False, f_packed = None\<rparr>"
        and before = "[field_g]" and after = "[field_h]"
        and def = "\<lparr>m_name = ''M'', m_fields = [field_g, \<lparr>f_name = ''f'',
           f_type = ''sint32'', f_tag = 536870911, f_required = False, f_repeated = False,
           f_packed = None\<rparr>, field_h]\<rparr>"
        and sch = skip_schema and v = "Number (- 2147483648)"]
      scalar_round_trip[where field = "\<lparr>f_name = ''f'', f_type = ''uint64'', f_tag = 2,
           f_required = False, f_repeated = False, f_packed = None\<rparr>"
        and before = "[]" and after = "[]"
        and def = "\<lparr>m_name = ''M'', m_fields = [\<lparr>f_name = ''f'', f_type = ''uint64'',
           f_tag = 2, f_required = False, f_repeated = False, f_packed = None\<rparr>]\<rparr>"
        and sch = skip_schema and v = "Long 0xFFFFFFFFFFFFFFFF True"]
      scalar_round_trip[where field = "\<lparr>f_name = ''f'', f_type = ''string'', f_tag = 2,
           f_required = False, f_repeated = False, f_packed = None\<rparr>"
        and before = "[field_g]" and after = "[field_h]"
        and def = "\<lparr>m_name = ''M'', m_fields = [field_g, \<lparr>f_name = ''f'',
           f_type = ''string'', f_tag = 2, f_required = False, f_repeated = False,
           f_packed = None\<rparr>, field_h]\<rparr>"
        and sch = skip_schema and v = "Str [0x6F, 0x20AC, 0x1F600]"]
      v1 v2 v3 v4
    by (simp add: scalar_types_def field_g_def field_h_def object_prototype_keys_def
        del: ex_simps)
qed

end
